theory Spec2Isabelle
  imports Main
begin

section \<open>Data model of the timer (src/js/app.js)\<close>

text \<open>
  The numbers of the program are JavaScript numbers. Every number the timer computes with
  is an integer far below \<open>2 ^ 53\<close> (minutes come from \<open>parseInt\<close> and
  \<open>Math.round\<close>, times from \<open>Date.now()\<close> in milliseconds), where JavaScript
  arithmetic is exact, so they are modelled as \<open>int\<close>. A settings draft may also hold
  \<open>NaN\<close>, which \<open>clampMinutes\<close> tests for, so a draft value is a \<open>jsnum\<close>.
\<close>

datatype jsnum = NaN | Num int

text \<open>The strings \<open>'work'\<close>, \<open>'break'\<close> and \<open>'longBreak'\<close> of a phase's \<open>type\<close>.\<close>

datatype phaseType = Work | Break | LongBreak

record phase =
  type :: phaseType
  label :: string
  duration :: int

text \<open>\<open>APP_STATE\<close>, the values of \<open>timerState.appState\<close>.\<close>

datatype APP_STATE = IDLE | RUNNING | PAUSED | SETTINGS | MILESTONE

record draft =
  work :: jsnum
  shortBreak :: jsnum
  longBreak :: jsnum

text \<open>
  The module-level variables of app.js that the timer rules read or write, and the
  browser's table of scheduled callbacks: \<open>liveIntervals\<close> holds the ids handed out
  by \<open>setInterval\<close> that have not been cleared, \<open>liveTimeouts\<close> the ids handed out by
  \<open>setTimeout\<close> for a delayed auto-start that have neither been cleared nor fired, and
  \<open>lastTimerId\<close> is the last id handed out (one pool for both). Timer ids are positive
  integers, so the truthiness test \<open>if (intervalId)\<close> is the test against \<open>null\<close>.
  Variables that only drive sounds, animations, colours and the DOM are left out, and so
  is the re-read \<open>currentPhase = phases[currentPhaseIndex]\<close> inside \<open>updateUI()\<close>:
  every assignment to either variable is followed by one that puts them in step again.
\<close>

record state =
  appState :: APP_STATE
  milestonePendingReset :: bool
  workMinutes :: int
  breakMinutes :: int
  longBreakMinutes :: int
  draftDurations :: draft
  wasRunningBeforeSettings :: bool
  phaseIndexBeforeSettings :: int
  phases :: "phase list"
  currentPhaseIndex :: int
  currentPhase :: phase
  totalSeconds :: int
  remaining :: int
  isRunning :: bool
  hasEverStartedTimer :: bool
  userPausedWork :: bool
  suppressNextStartSound :: bool
  completedWorkSessions :: int
  skippedNotStartedWorkSessions :: int
  skippedNotCompletedWorkSessions :: int
  totalWorkSeconds :: int
  intervalId :: "nat option"
  targetTimestamp :: "int option"
  silentPause :: bool
  autoStartTimeoutId :: "nat option"
  settingsOpen :: bool
  liveIntervals :: "nat list"
  liveTimeouts :: "nat list"
  lastTimerId :: nat

section \<open>Constants and pure helpers\<close>

text \<open>\<open>CONFIG.TIMER\<close>.\<close>

definition MIN_WORK_MINUTES :: int where "MIN_WORK_MINUTES = 10"
definition MIN_BREAK_MINUTES :: int where "MIN_BREAK_MINUTES = 1"
definition MAX_BREAK_MINUTES :: int where "MAX_BREAK_MINUTES = 10"
definition MIN_LONG_BREAK_MINUTES :: int where "MIN_LONG_BREAK_MINUTES = 5"

text \<open>
  \<^verbatim>\<open>function clampMinutes(v) { if (isNaN(v)) return 1; if (v < 1) return 1;
  if (v > 60) return 60; return v; }\<close>
\<close>

fun clampMinutes :: "jsnum \<Rightarrow> int" where
  "clampMinutes NaN = 1"
| "clampMinutes (Num v) = (if v < 1 then 1 else if v > 60 then 60 else v)"

text \<open>
  \<open>buildPhases()\<close> reads the three module variables and returns the array literal of
  eight phases.
\<close>

definition buildPhases :: "state \<Rightarrow> phase list" where
  "buildPhases s =
    [ \<lparr>type = Work, label = ''Work'', duration = workMinutes s * 60\<rparr>,
      \<lparr>type = Break, label = ''Break'', duration = breakMinutes s * 60\<rparr>,
      \<lparr>type = Work, label = ''Work'', duration = workMinutes s * 60\<rparr>,
      \<lparr>type = Break, label = ''Break'', duration = breakMinutes s * 60\<rparr>,
      \<lparr>type = Work, label = ''Work'', duration = workMinutes s * 60\<rparr>,
      \<lparr>type = Break, label = ''Break'', duration = breakMinutes s * 60\<rparr>,
      \<lparr>type = Work, label = ''Work'', duration = workMinutes s * 60\<rparr>,
      \<lparr>type = LongBreak, label = ''Long Break'', duration = longBreakMinutes s * 60\<rparr> ]"

text \<open>
  \<open>Math.round(diff / 1000)\<close> for an integer \<open>diff\<close>: \<open>Math.round\<close> rounds to the
  nearest integer and a tie towards plus infinity, that is
  \<open>floor (diff / 1000 + 1 / 2)\<close>, which on integers is \<open>(diff + 500) div 1000\<close>
  (\<open>div\<close> on \<open>int\<close> rounds down).
\<close>

definition roundSeconds :: "int \<Rightarrow> int" where
  "roundSeconds diff = (diff + 500) div 1000"

text \<open>
  \<open>targetTimestamp - Date.now()\<close>; in this subtraction \<open>null\<close> converts to \<open>0\<close>.
\<close>

definition diffToTarget :: "int option \<Rightarrow> int \<Rightarrow> int" where
  "diffToTarget t now = (case t of None \<Rightarrow> 0 - now | Some x \<Rightarrow> x - now)"

text \<open>
  The remainder operator \<open>a % b\<close> of JavaScript takes the sign of the dividend.
\<close>

definition jsRem :: "int \<Rightarrow> int \<Rightarrow> int" where
  "jsRem a b = sgn a * (\<bar>a\<bar> mod \<bar>b\<bar>)"

text \<open>
  \<open>phases[i]\<close>: an index outside the array gives \<open>undefined\<close>, and the read of
  \<open>.duration\<close> or \<open>.type\<close> that follows every such access in the source then throws
  a TypeError. \<open>None\<close> stands for that exception.
\<close>

definition phaseAt :: "phase list \<Rightarrow> int \<Rightarrow> phase option" where
  "phaseAt ps i = (if 0 \<le> i \<and> i < int (length ps) then Some (ps ! nat i) else None)"

section \<open>The browser's timers\<close>

text \<open>\<open>clearInterval(id)\<close> and \<open>clearTimeout(id)\<close>: the id is no longer scheduled.\<close>

definition clearTimer :: "nat \<Rightarrow> state \<Rightarrow> state" where
  "clearTimer i s =
     s\<lparr>liveIntervals := removeAll i (liveIntervals s),
       liveTimeouts := removeAll i (liveTimeouts s)\<rparr>"

text \<open>The id that the next \<open>setInterval\<close> or \<open>setTimeout\<close> returns.\<close>

definition freshTimerId :: "state \<Rightarrow> nat" where
  "freshTimerId s = Suc (lastTimerId s)"

section \<open>The countdown engine\<close>

text \<open>
  \<open>startTimer()\<close> at \<open>Date.now() = now\<close>. The sounds, the analytics event and the
  animations between the guard and the wall-clock computation change no modelled
  variable except the two one-shot flags.
\<close>

definition startTimer :: "int \<Rightarrow> state \<Rightarrow> state" where
  "startTimer now s =
    (if isRunning s \<or> settingsOpen s \<or> milestonePendingReset s then s
     else
       let isResume = (targetTimestamp s \<noteq> None \<and> remaining s > 0
                        \<and> remaining s < totalSeconds s);
           isWorkResume = (userPausedWork s \<and> type (currentPhase s) = Work \<and> isResume);
           s1 = s\<lparr>userPausedWork := (if isWorkResume then False else userPausedWork s),
                   suppressNextStartSound := False,
                   isRunning := True,
                   appState := RUNNING,
                   targetTimestamp := Some (now + remaining s * 1000)\<rparr>;
           s2 = (case intervalId s1 of None \<Rightarrow> s1 | Some i \<Rightarrow> clearTimer i s1);
           i = freshTimerId s2
       in s2\<lparr>intervalId := Some i,
              liveIntervals := i # liveIntervals s2,
              lastTimerId := i\<rparr>)"

text \<open>\<open>pauseTimer()\<close> at \<open>Date.now() = now\<close>.\<close>

definition pauseTimer :: "int \<Rightarrow> state \<Rightarrow> state" where
  "pauseTimer now s =
    (if \<not> isRunning s \<and> intervalId s = None then s
     else
       let s1 = (case targetTimestamp s of
                   None \<Rightarrow> s
                 | Some t \<Rightarrow> s\<lparr>remaining := max 0 (roundSeconds (t - now))\<rparr>);
           s2 = s1\<lparr>isRunning := False\<rparr>;
           s3 = (case intervalId s2 of
                   None \<Rightarrow> s2
                 | Some i \<Rightarrow> (clearTimer i s2)\<lparr>intervalId := None\<rparr>);
           s4 = (case autoStartTimeoutId s3 of
                   None \<Rightarrow> s3
                 | Some i \<Rightarrow> (clearTimer i s3)\<lparr>autoStartTimeoutId := None\<rparr>);
           s5 = (if \<not> silentPause s4 \<and> \<not> settingsOpen s4 \<and> type (currentPhase s4) = Work
                 then s4\<lparr>userPausedWork := True\<rparr> else s4)
       in s5\<lparr>silentPause := False,
              appState := (if settingsOpen s5 then SETTINGS else PAUSED)\<rparr>)"

text \<open>
  \<open>resetCurrentPhase()\<close>. The read \<open>phases[currentPhaseIndex].duration\<close> throws when
  the index is outside the array.
\<close>

definition resetCurrentPhase :: "int \<Rightarrow> state \<Rightarrow> state option" where
  "resetCurrentPhase now s =
    (let s1 = pauseTimer now s in
     case phaseAt (phases s1) (currentPhaseIndex s1) of
       None \<Rightarrow> None
     | Some p \<Rightarrow>
         Some (s1\<lparr>currentPhase := p,
                   totalSeconds := duration p,
                   remaining := duration p,
                   targetTimestamp := None,
                   hasEverStartedTimer := False\<rparr>))"

section \<open>Statistics and phase transitions\<close>

text \<open>\<open>showMilestoneModal()\<close>: of the modelled variables it sets only the app state.\<close>

definition showMilestoneModal :: "state \<Rightarrow> state" where
  "showMilestoneModal s = s\<lparr>appState := MILESTONE\<rparr>"

text \<open>\<open>finalizeCurrentPhase(completed)\<close>.\<close>

definition finalizeCurrentPhase :: "bool \<Rightarrow> state \<Rightarrow> state" where
  "finalizeCurrentPhase completed s =
    (if type (currentPhase s) = Work then
       let rawSpent = duration (currentPhase s) - remaining s;
           spent = max 0 rawSpent
       in if completed then
            let effectiveSpent = (if spent > 0 then spent else duration (currentPhase s))
            in s\<lparr>totalWorkSeconds := totalWorkSeconds s + effectiveSpent,
                 completedWorkSessions := completedWorkSessions s + 1\<rparr>
          else if spent > 0 then
            s\<lparr>totalWorkSeconds := totalWorkSeconds s + spent,
              skippedNotCompletedWorkSessions := skippedNotCompletedWorkSessions s + 1\<rparr>
          else
            s\<lparr>skippedNotStartedWorkSessions := skippedNotStartedWorkSessions s + 1\<rparr>
     else s)"

text \<open>
  \<open>moveToNextPhase(autoStart, completed)\<close> at \<open>Date.now() = now\<close>. With an empty
  \<open>phases\<close> array the index \<open>(currentPhaseIndex + 1) % 0\<close> is \<open>NaN\<close> and the read of the
  new phase's \<open>type\<close> throws, as it does for any index outside the array. The delayed
  auto-start is the timeout whose callback calls \<open>startTimer()\<close>.
\<close>

definition moveToNextPhase :: "bool \<Rightarrow> bool \<Rightarrow> int \<Rightarrow> state \<Rightarrow> state option" where
  "moveToNextPhase autoStart completed now s =
    (let prevPhaseType = type (currentPhase s);
         s1 = finalizeCurrentPhase completed s
     in if prevPhaseType = LongBreak then
          Some (showMilestoneModal (pauseTimer now (s1\<lparr>milestonePendingReset := True\<rparr>)))
        else if milestonePendingReset s1 then
          Some (pauseTimer now s1)
        else
          let s2 = pauseTimer now (s1\<lparr>silentPause := True\<rparr>) in
          if phases s2 = [] then None
          else
            let idx = jsRem (currentPhaseIndex s2 + 1) (int (length (phases s2))) in
            case phaseAt (phases s2) idx of
              None \<Rightarrow> None
            | Some p \<Rightarrow>
                let s3 = s2\<lparr>currentPhaseIndex := idx,
                            currentPhase := p,
                            totalSeconds := duration p,
                            remaining := duration p,
                            targetTimestamp := None,
                            suppressNextStartSound := autoStart\<rparr>
                in if autoStart then
                     let s4 = (case autoStartTimeoutId s3 of
                                 None \<Rightarrow> s3
                               | Some i \<Rightarrow> clearTimer i s3);
                         i = freshTimerId s4
                     in Some (s4\<lparr>autoStartTimeoutId := Some i,
                                   liveTimeouts := i # liveTimeouts s4,
                                   lastTimerId := i\<rparr>)
                   else Some s3)"

text \<open>
  The callback that \<open>startTimer\<close> hands to \<open>setInterval\<close>, run at
  \<open>Date.now() = now\<close>.
\<close>

definition intervalCallback :: "int \<Rightarrow> state \<Rightarrow> state option" where
  "intervalCallback now s =
    (let diff = diffToTarget (targetTimestamp s) now;
         newRemaining = max 0 (roundSeconds diff);
         s1 = s\<lparr>remaining := newRemaining\<rparr>
     in if remaining s1 \<le> 0 then
          let s2 = (case intervalId s1 of None \<Rightarrow> s1 | Some i \<Rightarrow> clearTimer i s1)
          in moveToNextPhase True True now (s2\<lparr>intervalId := None, isRunning := False\<rparr>)
        else Some s1)"

section \<open>User commands\<close>

text \<open>\<open>handleSingleClick()\<close>, the click on the time overlay.\<close>

definition handleSingleClick :: "int \<Rightarrow> state \<Rightarrow> state" where
  "handleSingleClick now s =
    (if settingsOpen s \<or> milestonePendingReset s then s
     else if isRunning s then pauseTimer now s
     else startTimer now s)"

text \<open>The double click on the time overlay.\<close>

definition overlayDblClick :: "int \<Rightarrow> state \<Rightarrow> state option" where
  "overlayDblClick now s =
    (if settingsOpen s \<or> milestonePendingReset s then Some s
     else resetCurrentPhase now s)"

text \<open>The click on the Next button: \<open>moveToNextPhase(wasRunning, false)\<close>.\<close>

definition nextButtonClick :: "int \<Rightarrow> state \<Rightarrow> state option" where
  "nextButtonClick now s =
    (if settingsOpen s \<or> milestonePendingReset s then Some s
     else moveToNextPhase (isRunning s) False now s)"

text \<open>The click on the settings button, which opens the settings panel.\<close>

definition settingsButtonClick :: "int \<Rightarrow> state \<Rightarrow> state" where
  "settingsButtonClick now s =
    (if settingsOpen s \<or> milestonePendingReset s then s
     else
       let s1 = s\<lparr>phaseIndexBeforeSettings := currentPhaseIndex s,
                   settingsOpen := True,
                   wasRunningBeforeSettings := isRunning s\<rparr>;
           s2 = pauseTimer now s1
       in s2\<lparr>draftDurations :=
                 \<lparr>work = Num (workMinutes s2),
                  shortBreak = Num (breakMinutes s2),
                  longBreak = Num (longBreakMinutes s2)\<rparr>\<rparr>)"

text \<open>
  The \<open>input\<close> handlers of the three duration fields; \<open>raw\<close> is
  \<open>parseInt(input.value, 10)\<close>.
\<close>

definition workInputHandler :: "jsnum \<Rightarrow> state \<Rightarrow> state" where
  "workInputHandler raw s =
    (if \<not> settingsOpen s then s
     else
       let v = clampMinutes raw;
           v = (if v < 10 then 10 else v)
       in s\<lparr>draftDurations := (draftDurations s)\<lparr>work := Num v\<rparr>\<rparr>)"

definition breakInputHandler :: "jsnum \<Rightarrow> state \<Rightarrow> state" where
  "breakInputHandler raw s =
    (if \<not> settingsOpen s then s
     else
       let v = clampMinutes raw;
           v = (if v < 1 then 1 else if v > 10 then 10 else v)
       in s\<lparr>draftDurations := (draftDurations s)\<lparr>shortBreak := Num v\<rparr>\<rparr>)"

definition longBreakInputHandler :: "jsnum \<Rightarrow> state \<Rightarrow> state" where
  "longBreakInputHandler raw s =
    (if \<not> settingsOpen s then s
     else
       let v = clampMinutes raw;
           v = (if v < 5 then 5 else v)
       in s\<lparr>draftDurations := (draftDurations s)\<lparr>longBreak := Num v\<rparr>\<rparr>)"

text \<open>
  The values of \<open>colorTargetPhase\<close>, the tab of the settings panel that is active:
  \<open>'work'\<close>, \<open>'shortBreak'\<close>, \<open>'longBreak'\<close>, or whatever else the tab's
  \<open>data-phase\<close> attribute holds.
\<close>

datatype settingsPhaseKey = KeyWork | KeyShortBreak | KeyLongBreak | KeyOther

text \<open>
  \<open>updateDraftDurationFromHandle(e)\<close>, run while the duration handle is dragged and by
  a click on the ring. \<open>raw\<close> is \<open>Math.round(normalized / 360 * 60)\<close>, the minutes
  that the pointer position stands for, and \<open>key\<close> is \<open>colorTargetPhase\<close>. Under any
  other key the value is stored in a property of the draft that nothing reads.
\<close>

definition updateDraftDurationFromHandle :: "settingsPhaseKey \<Rightarrow> jsnum \<Rightarrow> state \<Rightarrow> state" where
  "updateDraftDurationFromHandle key raw s =
    (let minutes = (if raw = Num 0 then Num 60 else raw);
         minutes = clampMinutes minutes;
         minutes = (if key = KeyWork \<and> minutes < 10 then 10
                    else if key = KeyShortBreak then
                      (if minutes < 1 then 1 else if minutes > 10 then 10 else minutes)
                    else if key = KeyLongBreak \<and> minutes < 5 then 5
                    else minutes)
     in case key of
          KeyWork \<Rightarrow> s\<lparr>draftDurations := (draftDurations s)\<lparr>work := Num minutes\<rparr>\<rparr>
        | KeyShortBreak \<Rightarrow> s\<lparr>draftDurations := (draftDurations s)\<lparr>shortBreak := Num minutes\<rparr>\<rparr>
        | KeyLongBreak \<Rightarrow> s\<lparr>draftDurations := (draftDurations s)\<lparr>longBreak := Num minutes\<rparr>\<rparr>
        | KeyOther \<Rightarrow> s)"

text \<open>
  \<open>applySettings()\<close>, run by the click on the back button of the settings panel, at
  \<open>Date.now() = now\<close>.
\<close>

definition applySettings :: "int \<Rightarrow> state \<Rightarrow> state option" where
  "applySettings now s =
    (let s1 = s\<lparr>workMinutes := max 5 (clampMinutes (work (draftDurations s))),
                 breakMinutes := max MIN_BREAK_MINUTES
                                   (min MAX_BREAK_MINUTES (clampMinutes (shortBreak (draftDurations s)))),
                 longBreakMinutes := max MIN_LONG_BREAK_MINUTES
                                       (clampMinutes (longBreak (draftDurations s)))\<rparr>;
         s2 = s1\<lparr>phases := buildPhases s1\<rparr>;
         s3 = (if phaseIndexBeforeSettings s2 < 0
                  \<or> phaseIndexBeforeSettings s2 \<ge> int (length (phases s2))
               then s2\<lparr>phaseIndexBeforeSettings := 0\<rparr> else s2)
     in case phaseAt (phases s3) (phaseIndexBeforeSettings s3) of
          None \<Rightarrow> None
        | Some p \<Rightarrow>
            let s4 = s3\<lparr>currentPhaseIndex := phaseIndexBeforeSettings s3,
                        currentPhase := p,
                        totalSeconds := duration p,
                        remaining := duration p,
                        targetTimestamp := None,
                        settingsOpen := False,
                        appState := (if wasRunningBeforeSettings s3 then RUNNING else IDLE)\<rparr>
            in case resetCurrentPhase now s4 of
                 None \<Rightarrow> None
               | Some s5 \<Rightarrow>
                   let s6 = (if wasRunningBeforeSettings s5 then startTimer now s5 else s5)
                   in Some (s6\<lparr>wasRunningBeforeSettings := False\<rparr>))"

text \<open>
  The click on the OK button of the milestone modal (the acknowledgement of the
  milestone). The read \<open>phases[0].duration\<close> throws when the array is empty.
\<close>

definition acknowledgeMilestone :: "int \<Rightarrow> state \<Rightarrow> state option" where
  "acknowledgeMilestone now s =
    (let s1 = s\<lparr>milestonePendingReset := False,
                 completedWorkSessions := 0,
                 skippedNotStartedWorkSessions := 0,
                 skippedNotCompletedWorkSessions := 0\<rparr>;
         s2 = pauseTimer now s1
     in case phaseAt (phases s2) 0 of
          None \<Rightarrow> None
        | Some p \<Rightarrow>
            Some (s2\<lparr>currentPhaseIndex := 0,
                      currentPhase := p,
                      totalSeconds := duration p,
                      remaining := duration p,
                      hasEverStartedTimer := False,
                      appState := RUNNING\<rparr>))"

section \<open>Events\<close>

text \<open>
  What can happen to the page: a user command, an edit of the settings draft, or the
  browser running a scheduled callback. An interval's callback runs only while its id is scheduled; a timeout's
  callback runs once, and only if its id has not been cleared. The callback of every
  modelled timeout is \<open>() => { startTimer(); }\<close>. Each event carries the value of
  \<open>Date.now()\<close> at which it runs.
\<close>

definition intervalFires :: "nat \<Rightarrow> int \<Rightarrow> state \<Rightarrow> state option" where
  "intervalFires i now s =
    (if i \<in> set (liveIntervals s) then intervalCallback now s else Some s)"

definition timeoutFires :: "nat \<Rightarrow> int \<Rightarrow> state \<Rightarrow> state" where
  "timeoutFires i now s =
    (if i \<in> set (liveTimeouts s)
     then startTimer now (s\<lparr>liveTimeouts := removeAll i (liveTimeouts s)\<rparr>)
     else s)"

datatype event =
    Click int
  | DblClick int
  | NextClick int
  | SettingsClick int
  | BackClick int
  | MilestoneOk int
  | IntervalFires nat int
  | TimeoutFires nat int
  | WorkInput jsnum
  | BreakInput jsnum
  | LongBreakInput jsnum
  | HandleMoved settingsPhaseKey jsnum

fun dispatch :: "event \<Rightarrow> state \<Rightarrow> state option" where
  "dispatch (Click now) s = Some (handleSingleClick now s)"
| "dispatch (DblClick now) s = overlayDblClick now s"
| "dispatch (NextClick now) s = nextButtonClick now s"
| "dispatch (SettingsClick now) s = Some (settingsButtonClick now s)"
| "dispatch (BackClick now) s = applySettings now s"
| "dispatch (MilestoneOk now) s = acknowledgeMilestone now s"
| "dispatch (IntervalFires i now) s = intervalFires i now s"
| "dispatch (TimeoutFires i now) s = Some (timeoutFires i now s)"
| "dispatch (WorkInput raw) s = Some (workInputHandler raw s)"
| "dispatch (BreakInput raw) s = Some (breakInputHandler raw s)"
| "dispatch (LongBreakInput raw) s = Some (longBreakInputHandler raw s)"
| "dispatch (HandleMoved key raw) s = Some (updateDraftDurationFromHandle key raw s)"

text \<open>A run of events, stopped by the first exception.\<close>

fun run :: "event list \<Rightarrow> state \<Rightarrow> state option" where
  "run [] s = Some s"
| "run (e # es) s = (case dispatch e s of None \<Rightarrow> None | Some s' \<Rightarrow> run es s')"

text \<open>
  The state in which the script leaves the module variables when nothing is stored in
  \<open>localStorage\<close>: 25, 5 and 15 minutes, the first phase current, nothing scheduled.
\<close>

definition initialPhases :: "phase list" where
  "initialPhases =
    [ \<lparr>type = Work, label = ''Work'', duration = 25 * 60\<rparr>,
      \<lparr>type = Break, label = ''Break'', duration = 5 * 60\<rparr>,
      \<lparr>type = Work, label = ''Work'', duration = 25 * 60\<rparr>,
      \<lparr>type = Break, label = ''Break'', duration = 5 * 60\<rparr>,
      \<lparr>type = Work, label = ''Work'', duration = 25 * 60\<rparr>,
      \<lparr>type = Break, label = ''Break'', duration = 5 * 60\<rparr>,
      \<lparr>type = Work, label = ''Work'', duration = 25 * 60\<rparr>,
      \<lparr>type = LongBreak, label = ''Long Break'', duration = 15 * 60\<rparr> ]"

definition initialState :: state where
  "initialState =
    \<lparr>appState = IDLE,
     milestonePendingReset = False,
     workMinutes = 25,
     breakMinutes = 5,
     longBreakMinutes = 15,
     draftDurations = \<lparr>work = Num 25, shortBreak = Num 5, longBreak = Num 15\<rparr>,
     wasRunningBeforeSettings = False,
     phaseIndexBeforeSettings = 0,
     phases = initialPhases,
     currentPhaseIndex = 0,
     currentPhase = \<lparr>type = Work, label = ''Work'', duration = 25 * 60\<rparr>,
     totalSeconds = 25 * 60,
     remaining = 25 * 60,
     isRunning = False,
     hasEverStartedTimer = False,
     userPausedWork = False,
     suppressNextStartSound = False,
     completedWorkSessions = 0,
     skippedNotStartedWorkSessions = 0,
     skippedNotCompletedWorkSessions = 0,
     totalWorkSeconds = 0,
     intervalId = None,
     targetTimestamp = None,
     silentPause = False,
     autoStartTimeoutId = None,
     settingsOpen = False,
     liveIntervals = [],
     liveTimeouts = [],
     lastTimerId = 0\<rparr>"

section \<open>Start-up and reachable states\<close>

text \<open>
  The three numbers of the document stored in \<open>localStorage\<close>; \<open>None\<close> for a field
  that is absent or whose \<open>typeof\<close> is not \<open>'number'\<close>.
\<close>

record storedSettings =
  savedWorkMinutes :: "jsnum option"
  savedBreakMinutes :: "jsnum option"
  savedLongBreakMinutes :: "jsnum option"

text \<open>
  \<open>restoreSettingsFromStorage()\<close>; \<open>saved\<close> is \<open>None\<close> when there is no storage, no
  stored text, or the text does not parse to an object. Comparisons with \<open>NaN\<close> are
  false.
\<close>

definition restoreSettingsFromStorage :: "storedSettings option \<Rightarrow> state \<Rightarrow> state" where
  "restoreSettingsFromStorage saved s =
    (case saved of
       None \<Rightarrow> s
     | Some d \<Rightarrow>
         let s1 = (case savedWorkMinutes d of
                     Some (Num v) \<Rightarrow> (if v \<ge> MIN_WORK_MINUTES then s\<lparr>workMinutes := v\<rparr> else s)
                   | _ \<Rightarrow> s);
             s2 = (case savedBreakMinutes d of
                     Some (Num v) \<Rightarrow>
                       (if v \<ge> MIN_BREAK_MINUTES \<and> v \<le> MAX_BREAK_MINUTES
                        then s1\<lparr>breakMinutes := v\<rparr> else s1)
                   | _ \<Rightarrow> s1);
             s3 = (case savedLongBreakMinutes d of
                     Some (Num v) \<Rightarrow>
                       (if v \<ge> MIN_LONG_BREAK_MINUTES then s2\<lparr>longBreakMinutes := v\<rparr> else s2)
                   | _ \<Rightarrow> s2)
         in s3\<lparr>draftDurations :=
                  \<lparr>work = Num (workMinutes s3),
                   shortBreak = Num (breakMinutes s3),
                   longBreak = Num (longBreakMinutes s3)\<rparr>\<rparr>)"

text \<open>
  The state when the script has run: the variables get their initial values,
  \<open>restoreSettingsFromStorage()\<close> runs, then \<open>phases = buildPhases()\<close>,
  \<open>currentPhaseIndex = 0\<close>, \<open>currentPhase = phases[0]\<close>,
  \<open>totalSeconds = currentPhase.duration\<close> and \<open>remaining = totalSeconds\<close>.
\<close>

definition startupState :: "storedSettings option \<Rightarrow> state" where
  "startupState saved =
    (let s1 = restoreSettingsFromStorage saved initialState;
         ps = buildPhases s1;
         p = ps ! 0
     in s1\<lparr>phases := ps,
            currentPhaseIndex := 0,
            currentPhase := p,
            totalSeconds := duration p,
            remaining := duration p\<rparr>)"

text \<open>The states the page can be in: a start-up state followed by any events.\<close>

inductive reachable :: "state \<Rightarrow> bool" where
  startup: "reachable (startupState saved)"
| step: "reachable s \<Longrightarrow> dispatch e s = Some s' \<Longrightarrow> reachable s'"

section \<open>Derived notions\<close>

text \<open>
  What holds of every reachable state and the theorems below rely on: the committed
  minutes and the work draft respect their minimum; every phase lasts a positive time;
  the only interval that can be scheduled is the one \<open>intervalId\<close> holds; and while
  the settings panel is open no milestone is pending and no interval is scheduled.
\<close>

definition minutesValid :: "state \<Rightarrow> bool" where
  "minutesValid s =
     (MIN_WORK_MINUTES \<le> workMinutes s \<and> 1 \<le> breakMinutes s \<and> 5 \<le> longBreakMinutes s
      \<and> (case work (draftDurations s) of NaN \<Rightarrow> False | Num v \<Rightarrow> MIN_WORK_MINUTES \<le> v))"

definition phasesPositive :: "state \<Rightarrow> bool" where
  "phasesPositive s =
     ((\<forall>p\<in>set (phases s). 0 < duration p) \<and> 0 < duration (currentPhase s))"

definition intervalsTracked :: "state \<Rightarrow> bool" where
  "intervalsTracked s = (set (liveIntervals s) \<subseteq> set_option (intervalId s))"

definition settingsQuiet :: "state \<Rightarrow> bool" where
  "settingsQuiet s =
     (settingsOpen s \<longrightarrow> \<not> milestonePendingReset s \<and> liveIntervals s = [])"

text \<open>
  The half of the run-status invariant that the engine keeps: while the countdown runs,
  \<open>targetTimestamp\<close> is set.
\<close>

definition runningHasTarget :: "state \<Rightarrow> bool" where
  "runningHasTarget s = (isRunning s \<longrightarrow> targetTimestamp s \<noteq> None)"

text \<open>
  The seconds spent in the current phase, \<open>Math.max(0, currentPhase.duration - remaining)\<close>
  (the \<open>spent\<close> of \<open>finalizeCurrentPhase\<close>).
\<close>

definition elapsedSeconds :: "state \<Rightarrow> int" where
  "elapsedSeconds s = max 0 (duration (currentPhase s) - remaining s)"


text \<open>
  The state at the end of a set in which the first Work phase ran to its end, the third
  phase was paused after a minute and skipped, and the other phases were skipped
  unstarted: the long break has been left and the milestone awaits its acknowledgement.
\<close>

definition pendingAfterMixedSet :: state where
  "pendingAfterMixedSet =
     initialState\<lparr>appState := MILESTONE,
                  milestonePendingReset := True,
                  currentPhaseIndex := 7,
                  currentPhase := \<lparr>type = LongBreak, label = ''Long Break'', duration = 15 * 60\<rparr>,
                  totalSeconds := 15 * 60,
                  remaining := 15 * 60,
                  userPausedWork := True,
                  completedWorkSessions := 1,
                  skippedNotStartedWorkSessions := 2,
                  skippedNotCompletedWorkSessions := 1,
                  totalWorkSeconds := 1560,
                  silentPause := True,
                  lastTimerId := 5\<rparr>"

section \<open>The schedule builder\<close>

text \<open>
  C8: the schedule built from any three durations has exactly eight phases, in the order
  Work, Break, Work, Break, Work, Break, Work, LongBreak; the long break occurs once, as
  the last phase; and the durations of the Work phases add up to four times
  \<open>workMinutes * 60\<close> seconds.
\<close>

theorem buildPhases_pattern:
  "length (buildPhases s) = 8
   \<and> map type (buildPhases s) = [Work, Break, Work, Break, Work, Break, Work, LongBreak]
   \<and> type (last (buildPhases s)) = LongBreak
   \<and> length (filter (\<lambda>p. type p = LongBreak) (buildPhases s)) = 1
   \<and> sum_list (map duration (filter (\<lambda>p. type p = Work) (buildPhases s)))
       = 4 * workMinutes s * 60"
  by (simp add: buildPhases_def)

section \<open>Field-by-field facts about the engine\<close>

lemma pauseTimer_keeps [simp]:
  "phases (pauseTimer now s) = phases s"
  "currentPhaseIndex (pauseTimer now s) = currentPhaseIndex s"
  "currentPhase (pauseTimer now s) = currentPhase s"
  "totalSeconds (pauseTimer now s) = totalSeconds s"
  "workMinutes (pauseTimer now s) = workMinutes s"
  "breakMinutes (pauseTimer now s) = breakMinutes s"
  "longBreakMinutes (pauseTimer now s) = longBreakMinutes s"
  "settingsOpen (pauseTimer now s) = settingsOpen s"
  "milestonePendingReset (pauseTimer now s) = milestonePendingReset s"
  "wasRunningBeforeSettings (pauseTimer now s) = wasRunningBeforeSettings s"
  "phaseIndexBeforeSettings (pauseTimer now s) = phaseIndexBeforeSettings s"
  "draftDurations (pauseTimer now s) = draftDurations s"
  "targetTimestamp (pauseTimer now s) = targetTimestamp s"
  "completedWorkSessions (pauseTimer now s) = completedWorkSessions s"
  "skippedNotStartedWorkSessions (pauseTimer now s) = skippedNotStartedWorkSessions s"
  "skippedNotCompletedWorkSessions (pauseTimer now s) = skippedNotCompletedWorkSessions s"
  "totalWorkSeconds (pauseTimer now s) = totalWorkSeconds s"
  "hasEverStartedTimer (pauseTimer now s) = hasEverStartedTimer s"
  "lastTimerId (pauseTimer now s) = lastTimerId s"
  by (simp_all add: pauseTimer_def Let_def clearTimer_def split: option.splits)

lemma pauseTimer_stops [simp]:
  "\<not> isRunning (pauseTimer now s)" "intervalId (pauseTimer now s) = None"
  by (simp_all add: pauseTimer_def Let_def clearTimer_def split: option.splits)

lemma pauseTimer_idle: "\<not> isRunning s \<Longrightarrow> intervalId s = None \<Longrightarrow> pauseTimer now s = s"
  by (simp add: pauseTimer_def)

lemma startTimer_keeps [simp]:
  "phases (startTimer now s) = phases s"
  "currentPhaseIndex (startTimer now s) = currentPhaseIndex s"
  "currentPhase (startTimer now s) = currentPhase s"
  "totalSeconds (startTimer now s) = totalSeconds s"
  "remaining (startTimer now s) = remaining s"
  "workMinutes (startTimer now s) = workMinutes s"
  "breakMinutes (startTimer now s) = breakMinutes s"
  "longBreakMinutes (startTimer now s) = longBreakMinutes s"
  "settingsOpen (startTimer now s) = settingsOpen s"
  "milestonePendingReset (startTimer now s) = milestonePendingReset s"
  "completedWorkSessions (startTimer now s) = completedWorkSessions s"
  "skippedNotStartedWorkSessions (startTimer now s) = skippedNotStartedWorkSessions s"
  "skippedNotCompletedWorkSessions (startTimer now s) = skippedNotCompletedWorkSessions s"
  "totalWorkSeconds (startTimer now s) = totalWorkSeconds s"
  "draftDurations (startTimer now s) = draftDurations s"
  by (simp_all add: startTimer_def Let_def clearTimer_def split: option.splits)


lemma finalize_keeps [simp]:
  "phases (finalizeCurrentPhase c s) = phases s"
  "currentPhaseIndex (finalizeCurrentPhase c s) = currentPhaseIndex s"
  "currentPhase (finalizeCurrentPhase c s) = currentPhase s"
  "milestonePendingReset (finalizeCurrentPhase c s) = milestonePendingReset s"
  "isRunning (finalizeCurrentPhase c s) = isRunning s"
  "intervalId (finalizeCurrentPhase c s) = intervalId s"
  "settingsOpen (finalizeCurrentPhase c s) = settingsOpen s"
  "liveIntervals (finalizeCurrentPhase c s) = liveIntervals s"
  "targetTimestamp (finalizeCurrentPhase c s) = targetTimestamp s"
  "workMinutes (finalizeCurrentPhase c s) = workMinutes s"
  "breakMinutes (finalizeCurrentPhase c s) = breakMinutes s"
  "longBreakMinutes (finalizeCurrentPhase c s) = longBreakMinutes s"
  "draftDurations (finalizeCurrentPhase c s) = draftDurations s"
  by (simp_all add: finalizeCurrentPhase_def Let_def)

lemma draft_edits:
  "\<exists>d. workInputHandler raw s = s\<lparr>draftDurations := d\<rparr>"
  "\<exists>d. breakInputHandler raw s = s\<lparr>draftDurations := d\<rparr>"
  "\<exists>d. longBreakInputHandler raw s = s\<lparr>draftDurations := d\<rparr>"
  "\<exists>d. updateDraftDurationFromHandle key raw s = s\<lparr>draftDurations := d\<rparr>"
proof -
  have "workInputHandler raw s
          = s\<lparr>draftDurations := draftDurations (workInputHandler raw s)\<rparr>"
    by (simp add: workInputHandler_def Let_def)
  then show "\<exists>d. workInputHandler raw s = s\<lparr>draftDurations := d\<rparr>" ..
  have "breakInputHandler raw s
          = s\<lparr>draftDurations := draftDurations (breakInputHandler raw s)\<rparr>"
    by (simp add: breakInputHandler_def Let_def)
  then show "\<exists>d. breakInputHandler raw s = s\<lparr>draftDurations := d\<rparr>" ..
  have "longBreakInputHandler raw s
          = s\<lparr>draftDurations := draftDurations (longBreakInputHandler raw s)\<rparr>"
    by (simp add: longBreakInputHandler_def Let_def)
  then show "\<exists>d. longBreakInputHandler raw s = s\<lparr>draftDurations := d\<rparr>" ..
  have "updateDraftDurationFromHandle key raw s
          = s\<lparr>draftDurations := draftDurations (updateDraftDurationFromHandle key raw s)\<rparr>"
    by (cases key) (simp_all add: updateDraftDurationFromHandle_def Let_def)
  then show "\<exists>d. updateDraftDurationFromHandle key raw s = s\<lparr>draftDurations := d\<rparr>" ..
qed

lemma phaseAt_mem: "phaseAt ps i = Some p \<Longrightarrow> p \<in> set ps"
  by (auto simp: phaseAt_def split: if_splits)

lemma removeAll_only: "set xs \<subseteq> {i} \<Longrightarrow> removeAll i xs = []"
  by (induction xs) auto

lemma pauseTimer_unschedules:
  assumes "intervalsTracked s"
  shows "liveIntervals (pauseTimer now s) = []"
proof (cases "intervalId s")
  case None
  with assms have "liveIntervals s = []" by (simp add: intervalsTracked_def)
  with None show ?thesis
    by (simp add: pauseTimer_def Let_def clearTimer_def split: option.splits)
next
  case (Some i)
  with assms have "removeAll i (liveIntervals s) = []"
    by (simp add: intervalsTracked_def removeAll_only)
  with Some show ?thesis
    by (simp add: pauseTimer_def Let_def clearTimer_def split: option.splits)
qed

lemma quiet_tracked: "liveIntervals s = [] \<Longrightarrow> intervalsTracked s"
  by (simp add: intervalsTracked_def)

lemma startTimer_tracked:
  assumes "intervalsTracked s"
  shows "intervalsTracked (startTimer now s)"
proof (cases "intervalId s")
  case None
  with assms have "liveIntervals s = []" by (simp add: intervalsTracked_def)
  with None show ?thesis
    by (simp add: startTimer_def Let_def intervalsTracked_def)
next
  case (Some i)
  with assms have "removeAll i (liveIntervals s) = []"
    by (simp add: intervalsTracked_def removeAll_only)
  with Some assms show ?thesis
    by (simp add: startTimer_def Let_def clearTimer_def intervalsTracked_def)
qed

lemma resetCurrentPhase_frame:
  assumes "resetCurrentPhase now s = Some s'"
  shows "workMinutes s' = workMinutes s" "breakMinutes s' = breakMinutes s"
    "longBreakMinutes s' = longBreakMinutes s" "draftDurations s' = draftDurations s"
    "wasRunningBeforeSettings s' = wasRunningBeforeSettings s"
    "phases s' = phases s" "currentPhaseIndex s' = currentPhaseIndex s"
    "settingsOpen s' = settingsOpen s" "milestonePendingReset s' = milestonePendingReset s"
    "currentPhase s' \<in> set (phases s)" "\<not> isRunning s'" "intervalId s' = None"
    "liveIntervals s' = liveIntervals (pauseTimer now s)"
    "targetTimestamp s' = None"
    "completedWorkSessions s' = completedWorkSessions s"
  using assms
  by (auto simp: resetCurrentPhase_def Let_def split: option.splits dest: phaseAt_mem)

lemma moveToNextPhase_frame:
  assumes "moveToNextPhase a c now s = Some s'"
  shows "workMinutes s' = workMinutes s" "breakMinutes s' = breakMinutes s"
    "longBreakMinutes s' = longBreakMinutes s" "draftDurations s' = draftDurations s"
    "phases s' = phases s" "settingsOpen s' = settingsOpen s"
    "currentPhase s' = currentPhase s \<or> currentPhase s' \<in> set (phases s)"
    "\<not> isRunning s'" "intervalId s' = None"
    "milestonePendingReset s \<longrightarrow> milestonePendingReset s'"
    "completedWorkSessions s' = completedWorkSessions (finalizeCurrentPhase c s)"
    "totalWorkSeconds s' = totalWorkSeconds (finalizeCurrentPhase c s)"
  using assms
  by (auto simp: moveToNextPhase_def Let_def showMilestoneModal_def clearTimer_def
      split: option.splits if_splits dest: phaseAt_mem)

lemma moveToNextPhase_unschedules:
  assumes "intervalsTracked s" and "moveToNextPhase a c now s = Some s'"
  shows "liveIntervals s' = []"
proof -
  have t1: "intervalsTracked (finalizeCurrentPhase c s)"
    and t2: "intervalsTracked ((finalizeCurrentPhase c s)\<lparr>milestonePendingReset := True\<rparr>)"
    and t3: "intervalsTracked ((finalizeCurrentPhase c s)\<lparr>silentPause := True\<rparr>)"
    using assms(1) by (simp_all add: intervalsTracked_def)
  note u = pauseTimer_unschedules [OF t1, of now] pauseTimer_unschedules [OF t2, of now]
    pauseTimer_unschedules [OF t3, of now]
  from assms(2) show ?thesis
    by (auto simp: moveToNextPhase_def Let_def showMilestoneModal_def clearTimer_def u
        split: option.splits if_splits)
qed

lemma acknowledgeMilestone_frame:
  assumes "acknowledgeMilestone now s = Some s'"
  shows "workMinutes s' = workMinutes s" "breakMinutes s' = breakMinutes s"
    "longBreakMinutes s' = longBreakMinutes s" "draftDurations s' = draftDurations s"
    "phases s' = phases s" "settingsOpen s' = settingsOpen s"
    "currentPhase s' \<in> set (phases s)" "\<not> isRunning s'" "intervalId s' = None"
    "\<not> milestonePendingReset s'" "targetTimestamp s' = targetTimestamp s"
    "liveIntervals s' = liveIntervals (pauseTimer now (s\<lparr>milestonePendingReset := False,
                 completedWorkSessions := 0,
                 skippedNotStartedWorkSessions := 0,
                 skippedNotCompletedWorkSessions := 0\<rparr>))"
  using assms
  by (auto simp: acknowledgeMilestone_def Let_def split: option.splits dest: phaseAt_mem)

lemma intervalCallback_cases:
  assumes "intervalCallback now s = Some s'"
  obtains (tick) "0 < roundSeconds (diffToTarget (targetTimestamp s) now)"
      "s' = s\<lparr>remaining := roundSeconds (diffToTarget (targetTimestamp s) now)\<rparr>"
  | (ends) "roundSeconds (diffToTarget (targetTimestamp s) now) \<le> 0"
      "moveToNextPhase True True now
         ((case intervalId s of None \<Rightarrow> s\<lparr>remaining := 0\<rparr>
           | Some i \<Rightarrow> clearTimer i (s\<lparr>remaining := 0\<rparr>))\<lparr>intervalId := None, isRunning := False\<rparr>)
       = Some s'"
proof (cases "0 < roundSeconds (diffToTarget (targetTimestamp s) now)")
  case True
  then have "max 0 (roundSeconds (diffToTarget (targetTimestamp s) now))
               = roundSeconds (diffToTarget (targetTimestamp s) now)" by simp
  with True assms tick show ?thesis
    by (simp add: intervalCallback_def Let_def)
next
  case False
  then have m: "max 0 (roundSeconds (diffToTarget (targetTimestamp s) now)) = 0" by simp
  from assms have "moveToNextPhase True True now
         ((case intervalId s of None \<Rightarrow> s\<lparr>remaining := 0\<rparr>
           | Some i \<Rightarrow> clearTimer i (s\<lparr>remaining := 0\<rparr>))\<lparr>intervalId := None, isRunning := False\<rparr>)
       = Some s'"
    unfolding intervalCallback_def Let_def m by simp
  with False ends show ?thesis by simp
qed


section \<open>Facts that hold in every reachable state\<close>

lemma buildPhases_length: "length (buildPhases s) = 8"
  by (simp add: buildPhases_def)

lemma clampMinutes_range: "1 \<le> clampMinutes v \<and> clampMinutes v \<le> 60"
  by (cases v) auto

lemma buildPhases_positive:
  assumes "0 < workMinutes s" "0 < breakMinutes s" "0 < longBreakMinutes s"
  shows "\<forall>p\<in>set (buildPhases s). 0 < duration p"
  using assms by (simp add: buildPhases_def)

lemma applySettings_result:
  "\<exists>s'. applySettings now s = Some s'
     \<and> workMinutes s' = max 5 (clampMinutes (work (draftDurations s)))
     \<and> breakMinutes s' = max 1 (min 10 (clampMinutes (shortBreak (draftDurations s))))
     \<and> longBreakMinutes s' = max 5 (clampMinutes (longBreak (draftDurations s)))
     \<and> draftDurations s' = draftDurations s
     \<and> \<not> settingsOpen s'
     \<and> milestonePendingReset s' = milestonePendingReset s
     \<and> completedWorkSessions s' = completedWorkSessions s"
  by (simp add: applySettings_def Let_def phaseAt_def buildPhases_length resetCurrentPhase_def
      MIN_BREAK_MINUTES_def MAX_BREAK_MINUTES_def MIN_LONG_BREAK_MINUTES_def)

lemma applySettings_shape:
  assumes "applySettings now s = Some s'"
  obtains s1 s4 s5 where "5 \<le> workMinutes s1" and "1 \<le> breakMinutes s1"
    and "5 \<le> longBreakMinutes s1" and "phases s4 = buildPhases s1"
    and "resetCurrentPhase now s4 = Some s5"
    and "liveIntervals s4 = liveIntervals s" and "intervalId s4 = intervalId s"
    and "s' = (if wasRunningBeforeSettings s5 then startTimer now s5 else s5)
                \<lparr>wasRunningBeforeSettings := False\<rparr>"
proof -
  define s1 where "s1 = s\<lparr>workMinutes := max 5 (clampMinutes (work (draftDurations s))),
                 breakMinutes := max MIN_BREAK_MINUTES
                                   (min MAX_BREAK_MINUTES (clampMinutes (shortBreak (draftDurations s)))),
                 longBreakMinutes := max MIN_LONG_BREAK_MINUTES
                                       (clampMinutes (longBreak (draftDurations s)))\<rparr>"
  define s2 where "s2 = s1\<lparr>phases := buildPhases s1\<rparr>"
  define s3 where "s3 = (if phaseIndexBeforeSettings s2 < 0
                  \<or> phaseIndexBeforeSettings s2 \<ge> int (length (phases s2))
               then s2\<lparr>phaseIndexBeforeSettings := 0\<rparr> else s2)"
  define mk where "mk p = s3\<lparr>currentPhaseIndex := phaseIndexBeforeSettings s3,
                        currentPhase := p,
                        totalSeconds := duration p,
                        remaining := duration p,
                        targetTimestamp := None,
                        settingsOpen := False,
                        appState := (if wasRunningBeforeSettings s3 then RUNNING else IDLE)\<rparr>"
    for p
  have eq: "applySettings now s =
      (case phaseAt (phases s3) (phaseIndexBeforeSettings s3) of
          None \<Rightarrow> None
        | Some p \<Rightarrow>
            (case resetCurrentPhase now (mk p) of
                 None \<Rightarrow> None
               | Some s5 \<Rightarrow>
                   Some ((if wasRunningBeforeSettings s5 then startTimer now s5 else s5)
                           \<lparr>wasRunningBeforeSettings := False\<rparr>)))"
    unfolding applySettings_def Let_def s1_def s2_def s3_def mk_def by (rule refl)
  have m: "5 \<le> workMinutes s1" "1 \<le> breakMinutes s1" "5 \<le> longBreakMinutes s1"
    by (simp_all add: s1_def MIN_BREAK_MINUTES_def MAX_BREAK_MINUTES_def
        MIN_LONG_BREAK_MINUTES_def)
  from assms eq obtain p s5 where r: "resetCurrentPhase now (mk p) = Some s5"
    and s': "s' = (if wasRunningBeforeSettings s5 then startTimer now s5 else s5)
                \<lparr>wasRunningBeforeSettings := False\<rparr>"
    by (auto split: option.splits)
  have f: "phases (mk p) = buildPhases s1" "liveIntervals (mk p) = liveIntervals s"
    "intervalId (mk p) = intervalId s"
    by (simp_all add: mk_def s3_def s2_def s1_def)
  from m f r s' that show thesis by blast
qed

lemma applySettings_tracked:
  assumes "intervalsTracked s" and "applySettings now s = Some s'"
  shows "intervalsTracked s'"
proof -
  from assms(2) obtain s4 s5 where r: "resetCurrentPhase now s4 = Some s5"
    and l: "liveIntervals s4 = liveIntervals s" and i: "intervalId s4 = intervalId s"
    and s': "s' = (if wasRunningBeforeSettings s5 then startTimer now s5 else s5)
                \<lparr>wasRunningBeforeSettings := False\<rparr>"
    by (rule applySettings_shape)
  from assms(1) l i have "intervalsTracked s4" by (simp add: intervalsTracked_def)
  then have "liveIntervals s5 = []"
    using resetCurrentPhase_frame(13) [OF r] by (simp add: pauseTimer_unschedules)
  then have "intervalsTracked s5" by (rule quiet_tracked)
  then have "intervalsTracked (if wasRunningBeforeSettings s5 then startTimer now s5 else s5)"
    by (simp add: startTimer_tracked)
  with s' show ?thesis by (simp add: intervalsTracked_def)
qed

lemma dispatch_keeps_schedule:
  assumes "dispatch e s = Some s'" and "e \<notin> range BackClick"
  shows "workMinutes s' = workMinutes s \<and> breakMinutes s' = breakMinutes s
     \<and> longBreakMinutes s' = longBreakMinutes s \<and> phases s' = phases s
     \<and> (currentPhase s' = currentPhase s \<or> currentPhase s' \<in> set (phases s))"
proof (cases e)
  case (Click now)
  with assms show ?thesis by (auto simp: handleSingleClick_def)
next
  case (DblClick now)
  with assms show ?thesis
    by (auto simp: overlayDblClick_def split: if_splits dest: resetCurrentPhase_frame)
next
  case (NextClick now)
  with assms show ?thesis
    by (auto simp: nextButtonClick_def split: if_splits dest: moveToNextPhase_frame)
next
  case (SettingsClick now)
  with assms show ?thesis by (auto simp: settingsButtonClick_def Let_def)
next
  case (BackClick now)
  with assms show ?thesis by simp
next
  case (MilestoneOk now)
  with assms show ?thesis by (auto dest: acknowledgeMilestone_frame)
next
  case (IntervalFires i now)
  show ?thesis
  proof (cases "i \<in> set (liveIntervals s)")
    case False
    with IntervalFires assms show ?thesis by (simp add: intervalFires_def)
  next
    case True
    with IntervalFires assms have "intervalCallback now s = Some s'"
      by (simp add: intervalFires_def)
    then show ?thesis
    proof (cases rule: intervalCallback_cases)
      case tick
      then show ?thesis by simp
    next
      case ends
      from moveToNextPhase_frame [OF ends(2)] show ?thesis
        by (auto simp: clearTimer_def split: option.splits)
    qed
  qed
next
  case (TimeoutFires i now)
  with assms show ?thesis by (auto simp: timeoutFires_def)
next
  case (WorkInput raw)
  with assms draft_edits(1) [of raw s] show ?thesis by auto
next
  case (BreakInput raw)
  with assms draft_edits(2) [of raw s] show ?thesis by auto
next
  case (LongBreakInput raw)
  with assms draft_edits(3) [of raw s] show ?thesis by auto
next
  case (HandleMoved key raw)
  with assms draft_edits(4) [of key raw s] show ?thesis by auto
qed

lemma dispatch_phasesPositive:
  assumes "phasesPositive s" and "dispatch e s = Some s'"
  shows "phasesPositive s'"
proof (cases "e \<in> range BackClick")
  case False
  from dispatch_keeps_schedule [OF assms(2) False] assms(1) show ?thesis
    by (auto simp: phasesPositive_def)
next
  case True
  then obtain now where e: "e = BackClick now" by auto
  with assms(2) have "applySettings now s = Some s'" by simp
  then obtain s1 s4 s5 where m: "5 \<le> workMinutes s1" "1 \<le> breakMinutes s1"
      "5 \<le> longBreakMinutes s1"
    and p4: "phases s4 = buildPhases s1"
    and r: "resetCurrentPhase now s4 = Some s5"
    and s': "s' = (if wasRunningBeforeSettings s5 then startTimer now s5 else s5)
                \<lparr>wasRunningBeforeSettings := False\<rparr>"
    by (rule applySettings_shape)
  from m have "0 < workMinutes s1" "0 < breakMinutes s1" "0 < longBreakMinutes s1"
    by simp_all
  from buildPhases_positive [OF this] p4 have pos: "\<forall>p\<in>set (phases s4). 0 < duration p"
    by simp
  from resetCurrentPhase_frame(6,10) [OF r] pos
  have "phasesPositive s5" by (simp add: phasesPositive_def)
  with s' show ?thesis by (simp add: phasesPositive_def)
qed


lemma tracked_cong:
  "liveIntervals a = liveIntervals b \<Longrightarrow> intervalId a = intervalId b \<Longrightarrow>
     intervalsTracked a = intervalsTracked b"
  by (simp add: intervalsTracked_def)

lemma quiet_cong:
  "settingsOpen a = settingsOpen b \<Longrightarrow> milestonePendingReset a = milestonePendingReset b \<Longrightarrow>
     liveIntervals a = liveIntervals b \<Longrightarrow> settingsQuiet a = settingsQuiet b"
  by (simp add: settingsQuiet_def)

lemma closed_quiet: "\<not> settingsOpen s \<Longrightarrow> settingsQuiet s"
  by (simp add: settingsQuiet_def)

lemma pauseTimer_tracked: "intervalsTracked s \<Longrightarrow> intervalsTracked (pauseTimer now s)"
  by (simp add: pauseTimer_unschedules quiet_tracked)

lemma intervalCallback_unschedules:
  assumes "intervalsTracked s" and "intervalCallback now s = Some s'"
  shows "intervalsTracked s'"
  using assms(2)
proof (cases rule: intervalCallback_cases)
  case tick
  with assms(1) show ?thesis by (simp add: intervalsTracked_def)
next
  case ends
  have "intervalsTracked
          ((case intervalId s of None \<Rightarrow> s\<lparr>remaining := 0\<rparr>
            | Some i \<Rightarrow> clearTimer i (s\<lparr>remaining := 0\<rparr>))\<lparr>intervalId := None, isRunning := False\<rparr>)"
    using assms(1)
    by (auto simp: intervalsTracked_def clearTimer_def removeAll_only split: option.splits)
  from moveToNextPhase_unschedules [OF this ends(2)] show ?thesis by (rule quiet_tracked)
qed

lemma settingsButtonClick_quiet:
  assumes "intervalsTracked s"
  shows "intervalsTracked (settingsButtonClick now s)"
    and "settingsQuiet s \<Longrightarrow> settingsQuiet (settingsButtonClick now s)"
proof -
  let ?s1 = "s\<lparr>phaseIndexBeforeSettings := currentPhaseIndex s,
                   settingsOpen := True, wasRunningBeforeSettings := isRunning s\<rparr>"
  have "intervalsTracked ?s1" using assms(1) by (simp add: intervalsTracked_def)
  then have l: "liveIntervals (pauseTimer now ?s1) = []" by (rule pauseTimer_unschedules)
  show "intervalsTracked (settingsButtonClick now s)"
    using assms(1) l by (simp add: settingsButtonClick_def Let_def intervalsTracked_def)
  show "settingsQuiet s \<Longrightarrow> settingsQuiet (settingsButtonClick now s)"
    using l by (simp add: settingsButtonClick_def Let_def settingsQuiet_def)
qed

lemma handleSingleClick_frame:
  "settingsOpen (handleSingleClick now s) = settingsOpen s"
  "settingsOpen s \<Longrightarrow> handleSingleClick now s = s"
  "intervalsTracked s \<Longrightarrow> intervalsTracked (handleSingleClick now s)"
  by (simp_all add: handleSingleClick_def startTimer_tracked pauseTimer_tracked)

lemma timeoutFires_frame:
  "settingsOpen (timeoutFires i now s) = settingsOpen s"
  "milestonePendingReset (timeoutFires i now s) = milestonePendingReset s"
  "settingsOpen s \<Longrightarrow> liveIntervals (timeoutFires i now s) = liveIntervals s"
  "intervalsTracked s \<Longrightarrow> intervalsTracked (timeoutFires i now s)"
proof -
  show "settingsOpen (timeoutFires i now s) = settingsOpen s"
    and "milestonePendingReset (timeoutFires i now s) = milestonePendingReset s"
    by (simp_all add: timeoutFires_def)
  show "settingsOpen s \<Longrightarrow> liveIntervals (timeoutFires i now s) = liveIntervals s"
    by (simp add: timeoutFires_def startTimer_def)
  assume "intervalsTracked s"
  then have "intervalsTracked (s\<lparr>liveTimeouts := removeAll i (liveTimeouts s)\<rparr>)"
    by (simp add: intervalsTracked_def)
  then show "intervalsTracked (timeoutFires i now s)"
    using \<open>intervalsTracked s\<close> by (simp add: timeoutFires_def startTimer_tracked)
qed

lemma acknowledgeMilestone_unschedules:
  assumes "intervalsTracked s" and "acknowledgeMilestone now s = Some s'"
  shows "liveIntervals s' = []"
proof -
  have "intervalsTracked (s\<lparr>milestonePendingReset := False,
                 completedWorkSessions := 0,
                 skippedNotStartedWorkSessions := 0,
                 skippedNotCompletedWorkSessions := 0\<rparr>)"
    using assms(1) by (simp add: intervalsTracked_def)
  from pauseTimer_unschedules [OF this] acknowledgeMilestone_frame(12) [OF assms(2)]
  show ?thesis by simp
qed

lemma resetCurrentPhase_unschedules:
  assumes "intervalsTracked s" and "resetCurrentPhase now s = Some s'"
  shows "liveIntervals s' = []"
  using pauseTimer_unschedules [OF assms(1)] resetCurrentPhase_frame(13) [OF assms(2)]
  by simp

lemma dispatch_tracked:
  assumes "intervalsTracked s" and "dispatch e s = Some s'"
  shows "intervalsTracked s'"
proof (cases e)
  case (Click now)
  with assms show ?thesis by (auto simp: handleSingleClick_frame)
next
  case (DblClick now)
  with assms show ?thesis
    by (auto simp: overlayDblClick_def quiet_tracked split: if_splits
        dest: resetCurrentPhase_unschedules)
next
  case (NextClick now)
  with assms show ?thesis
    by (auto simp: nextButtonClick_def quiet_tracked split: if_splits
        dest: moveToNextPhase_unschedules)
next
  case (SettingsClick now)
  with assms show ?thesis by (auto simp: settingsButtonClick_quiet)
next
  case (BackClick now)
  with assms show ?thesis by (auto dest: applySettings_tracked)
next
  case (MilestoneOk now)
  with assms show ?thesis
    by (auto simp: quiet_tracked dest: acknowledgeMilestone_unschedules)
next
  case (IntervalFires i now)
  with assms show ?thesis
    by (auto simp: intervalFires_def split: if_splits dest: intervalCallback_unschedules)
next
  case (TimeoutFires i now)
  with assms show ?thesis by (auto simp: timeoutFires_frame)
next
  case (WorkInput raw)
  with assms draft_edits(1) [of raw s] show ?thesis by (auto simp: intervalsTracked_def)
next
  case (BreakInput raw)
  with assms draft_edits(2) [of raw s] show ?thesis by (auto simp: intervalsTracked_def)
next
  case (LongBreakInput raw)
  with assms draft_edits(3) [of raw s] show ?thesis by (auto simp: intervalsTracked_def)
next
  case (HandleMoved key raw)
  with assms draft_edits(4) [of key raw s] show ?thesis by (auto simp: intervalsTracked_def)
qed

lemma dispatch_settingsQuiet:
  assumes "settingsQuiet s" and "intervalsTracked s" and "dispatch e s = Some s'"
  shows "settingsQuiet s'"
proof (cases e)
  case (Click now)
  show ?thesis
  proof (cases "settingsOpen s")
    case True
    with Click assms show ?thesis by (simp add: handleSingleClick_frame)
  next
    case False
    with Click assms show ?thesis by (auto simp: handleSingleClick_frame closed_quiet)
  qed
next
  case (DblClick now)
  show ?thesis
  proof (cases "settingsOpen s")
    case True
    with DblClick assms show ?thesis by (simp add: overlayDblClick_def)
  next
    case False
    with DblClick assms show ?thesis
      by (auto simp: overlayDblClick_def closed_quiet split: if_splits
          dest: resetCurrentPhase_frame(8))
  qed
next
  case (NextClick now)
  show ?thesis
  proof (cases "settingsOpen s")
    case True
    with NextClick assms show ?thesis by (simp add: nextButtonClick_def)
  next
    case False
    with NextClick assms show ?thesis
      by (auto simp: nextButtonClick_def closed_quiet split: if_splits
          dest: moveToNextPhase_frame(6))
  qed
next
  case (SettingsClick now)
  with assms show ?thesis by (auto simp: settingsButtonClick_quiet)
next
  case (BackClick now)
  with assms applySettings_result [of now s] show ?thesis
    by (auto simp: closed_quiet)
next
  case (MilestoneOk now)
  with assms have a: "acknowledgeMilestone now s = Some s'" by simp
  from acknowledgeMilestone_unschedules [OF assms(2) a] acknowledgeMilestone_frame(10) [OF a]
  show ?thesis by (simp add: settingsQuiet_def)
next
  case (IntervalFires i now)
  show ?thesis
  proof (cases "settingsOpen s")
    case True
    with assms(1) have "liveIntervals s = []" by (simp add: settingsQuiet_def)
    with IntervalFires assms show ?thesis by (simp add: intervalFires_def)
  next
    case False
    show ?thesis
    proof (cases "i \<in> set (liveIntervals s)")
      case True
      with IntervalFires assms have "intervalCallback now s = Some s'"
        by (simp add: intervalFires_def)
      then show ?thesis
      proof (cases rule: intervalCallback_cases)
        case tick
        with \<open>\<not> settingsOpen s\<close> show ?thesis by (simp add: settingsQuiet_def)
      next
        case ends
        from moveToNextPhase_frame(6) [OF ends(2)] \<open>\<not> settingsOpen s\<close>
        have "\<not> settingsOpen s'"
          by (auto simp: clearTimer_def split: option.splits)
        then show ?thesis by (rule closed_quiet)
      qed
    next
      case False
      with IntervalFires assms show ?thesis by (simp add: intervalFires_def)
    qed
  qed
next
  case (TimeoutFires i now)
  show ?thesis
  proof (cases "settingsOpen s")
    case True
    with TimeoutFires assms(3) timeoutFires_frame(1-3)
    have "settingsQuiet s' = settingsQuiet s" by (intro quiet_cong) auto
    with assms(1) show ?thesis by simp
  next
    case False
    with TimeoutFires assms(3) timeoutFires_frame(1) [of i now s] show ?thesis
      by (auto simp: closed_quiet)
  qed
next
  case (WorkInput raw)
  with assms draft_edits(1) [of raw s] show ?thesis by (auto simp: settingsQuiet_def)
next
  case (BreakInput raw)
  with assms draft_edits(2) [of raw s] show ?thesis by (auto simp: settingsQuiet_def)
next
  case (LongBreakInput raw)
  with assms draft_edits(3) [of raw s] show ?thesis by (auto simp: settingsQuiet_def)
next
  case (HandleMoved key raw)
  with assms draft_edits(4) [of key raw s] show ?thesis by (auto simp: settingsQuiet_def)
qed

lemma dispatch_keeps_draft:
  assumes "dispatch e s = Some s'"
    and "e \<notin> range SettingsClick" and "e \<notin> range WorkInput" and "e \<notin> range BreakInput"
    and "e \<notin> range LongBreakInput" and "\<forall>k r. e \<noteq> HandleMoved k r"
  shows "draftDurations s' = draftDurations s"
proof (cases e)
  case (Click now)
  with assms show ?thesis by (auto simp: handleSingleClick_def)
next
  case (DblClick now)
  with assms show ?thesis
    by (auto simp: overlayDblClick_def split: if_splits dest: resetCurrentPhase_frame(4))
next
  case (NextClick now)
  with assms show ?thesis
    by (auto simp: nextButtonClick_def split: if_splits dest: moveToNextPhase_frame(4))
next
  case (BackClick now)
  with assms applySettings_result [of now s] show ?thesis by auto
next
  case (MilestoneOk now)
  with assms show ?thesis by (auto dest: acknowledgeMilestone_frame(4))
next
  case (IntervalFires i now)
  show ?thesis
  proof (cases "i \<in> set (liveIntervals s)")
    case False
    with IntervalFires assms show ?thesis by (simp add: intervalFires_def)
  next
    case True
    with IntervalFires assms have "intervalCallback now s = Some s'"
      by (simp add: intervalFires_def)
    then show ?thesis
    proof (cases rule: intervalCallback_cases)
      case tick
      then show ?thesis by simp
    next
      case ends
      from moveToNextPhase_frame(4) [OF ends(2)] show ?thesis
        by (auto simp: clearTimer_def split: option.splits)
    qed
  qed
next
  case (TimeoutFires i now)
  with assms show ?thesis by (auto simp: timeoutFires_def)
qed (use assms in auto)

lemma draft_writers:
  "\<exists>v. work (draftDurations (workInputHandler raw s)) = work (draftDurations s)
       \<or> (work (draftDurations (workInputHandler raw s)) = Num v \<and> 10 \<le> v)"
  "work (draftDurations (breakInputHandler raw s)) = work (draftDurations s)"
  "work (draftDurations (longBreakInputHandler raw s)) = work (draftDurations s)"
  "\<exists>v. work (draftDurations (updateDraftDurationFromHandle key raw s)) = work (draftDurations s)
       \<or> (work (draftDurations (updateDraftDurationFromHandle key raw s)) = Num v \<and> 10 \<le> v)"
  by (cases key; auto simp: workInputHandler_def breakInputHandler_def
      longBreakInputHandler_def updateDraftDurationFromHandle_def Let_def)+

lemma minutesValid_cong:
  "workMinutes a = workMinutes b \<Longrightarrow> breakMinutes a = breakMinutes b \<Longrightarrow>
   longBreakMinutes a = longBreakMinutes b \<Longrightarrow> draftDurations a = draftDurations b \<Longrightarrow>
     minutesValid a = minutesValid b"
  by (simp add: minutesValid_def)

lemma dispatch_minutesValid:
  assumes "minutesValid s" and "dispatch e s = Some s'"
  shows "minutesValid s'"
proof -
  consider (ev_settings) now where "e = SettingsClick now"
    | (ev_back) now where "e = BackClick now"
    | (ev_work) raw where "e = WorkInput raw"
    | (ev_break) raw where "e = BreakInput raw"
    | (ev_long) raw where "e = LongBreakInput raw"
    | (ev_handle) key raw where "e = HandleMoved key raw"
    | (ev_other) "e \<notin> range BackClick" "e \<notin> range SettingsClick" "e \<notin> range WorkInput"
        "e \<notin> range BreakInput" "e \<notin> range LongBreakInput" "\<forall>k r. e \<noteq> HandleMoved k r"
    by (cases e) auto
  then show ?thesis
  proof cases
    case ev_settings
    with assms show ?thesis
      by (auto simp: settingsButtonClick_def Let_def minutesValid_def)
  next
    case ev_back
    from assms(1) obtain v where v: "work (draftDurations s) = Num v" "10 \<le> v"
      by (auto simp: minutesValid_def MIN_WORK_MINUTES_def split: jsnum.splits)
    then have "10 \<le> max 5 (clampMinutes (work (draftDurations s)))" by simp
    with ev_back assms applySettings_result [of now s] v show ?thesis
      by (auto simp: minutesValid_def MIN_WORK_MINUTES_def)
  next
    case ev_work
    with assms draft_edits(1) [of raw s] draft_writers(1) [of raw s] show ?thesis
      by (auto simp: minutesValid_def MIN_WORK_MINUTES_def)
  next
    case ev_break
    with assms draft_edits(2) [of raw s] draft_writers(2) [of raw s] show ?thesis
      by (auto simp: minutesValid_def)
  next
    case ev_long
    with assms draft_edits(3) [of raw s] draft_writers(3) [of raw s] show ?thesis
      by (auto simp: minutesValid_def)
  next
    case ev_handle
    with assms draft_edits(4) [of key raw s] draft_writers(4) [of key raw s] show ?thesis
      by (auto simp: minutesValid_def MIN_WORK_MINUTES_def)
  next
    case ev_other
    from dispatch_keeps_schedule [OF assms(2) ev_other(1)]
      dispatch_keeps_draft [OF assms(2) ev_other(2-6)]
    have "minutesValid s' = minutesValid s" by (intro minutesValid_cong) simp_all
    with assms(1) show ?thesis by simp
  qed
qed


lemma restore_frame:
  "workMinutes (restoreSettingsFromStorage saved s) = workMinutes s
     \<or> 10 \<le> workMinutes (restoreSettingsFromStorage saved s)"
  "breakMinutes (restoreSettingsFromStorage saved s) = breakMinutes s
     \<or> 1 \<le> breakMinutes (restoreSettingsFromStorage saved s)"
  "longBreakMinutes (restoreSettingsFromStorage saved s) = longBreakMinutes s
     \<or> 5 \<le> longBreakMinutes (restoreSettingsFromStorage saved s)"
  "work (draftDurations (restoreSettingsFromStorage saved s)) = work (draftDurations s)
     \<or> work (draftDurations (restoreSettingsFromStorage saved s))
          = Num (workMinutes (restoreSettingsFromStorage saved s))"
  "liveIntervals (restoreSettingsFromStorage saved s) = liveIntervals s"
  "intervalId (restoreSettingsFromStorage saved s) = intervalId s"
  "settingsOpen (restoreSettingsFromStorage saved s) = settingsOpen s"
  "isRunning (restoreSettingsFromStorage saved s) = isRunning s"
  by (simp_all add: restoreSettingsFromStorage_def Let_def MIN_WORK_MINUTES_def
      MIN_BREAK_MINUTES_def MAX_BREAK_MINUTES_def MIN_LONG_BREAK_MINUTES_def
      split: option.splits jsnum.splits)

lemma startupState_None: "startupState None = initialState"
  by (simp add: startupState_def restoreSettingsFromStorage_def initialState_def
      initialPhases_def buildPhases_def Let_def)

lemma startup_invariants:
  "minutesValid (startupState saved)" "phasesPositive (startupState saved)"
  "intervalsTracked (startupState saved)" "settingsQuiet (startupState saved)"
  "runningHasTarget (startupState saved)"
proof -
  let ?r = "restoreSettingsFromStorage saved initialState"
  have i: "workMinutes initialState = 25" "breakMinutes initialState = 5"
    "longBreakMinutes initialState = 15" "work (draftDurations initialState) = Num 25"
    "liveIntervals initialState = []" "\<not> settingsOpen initialState"
    "\<not> isRunning initialState"
    by (simp_all add: initialState_def)
  have w: "10 \<le> workMinutes ?r" using restore_frame(1) [of saved initialState] i by auto
  have b: "1 \<le> breakMinutes ?r" using restore_frame(2) [of saved initialState] i by auto
  have l: "5 \<le> longBreakMinutes ?r" using restore_frame(3) [of saved initialState] i by auto
  have d: "\<exists>v. work (draftDurations ?r) = Num v \<and> 10 \<le> v"
    using restore_frame(4) [of saved initialState] i w by auto
  have f: "liveIntervals ?r = []" "\<not> settingsOpen ?r" "\<not> isRunning ?r"
    using restore_frame(5,7,8) [of saved initialState] i by simp_all
  show "minutesValid (startupState saved)"
    using w b l d by (auto simp: minutesValid_def startupState_def Let_def MIN_WORK_MINUTES_def)
  have "0 < workMinutes ?r" "0 < breakMinutes ?r" "0 < longBreakMinutes ?r"
    using w b l by simp_all
  from buildPhases_positive [OF this]
  have pos: "\<forall>p\<in>set (buildPhases ?r). 0 < duration p" .
  moreover have "buildPhases ?r ! 0 \<in> set (buildPhases ?r)"
    by (simp add: buildPhases_length)
  ultimately show "phasesPositive (startupState saved)"
    by (simp add: phasesPositive_def startupState_def Let_def)
  show "intervalsTracked (startupState saved)"
    using f by (simp add: intervalsTracked_def startupState_def Let_def)
  show "settingsQuiet (startupState saved)"
    using f by (simp add: settingsQuiet_def startupState_def Let_def)
  show "runningHasTarget (startupState saved)"
    using f by (simp add: runningHasTarget_def startupState_def Let_def)
qed

lemma reachable_invariants:
  assumes "reachable s"
  shows "minutesValid s \<and> phasesPositive s \<and> intervalsTracked s \<and> settingsQuiet s"
  using assms
proof (induction rule: reachable.induct)
  case (startup saved)
  show ?case by (simp add: startup_invariants)
next
  case (step s e s')
  then show ?case
    by (auto intro: dispatch_minutesValid dispatch_phasesPositive dispatch_tracked
        dispatch_settingsQuiet)
qed

lemma reachable_initialState: "reachable initialState"
  using reachable.startup [of None] by (simp add: startupState_None)



lemma stopped_runningHasTarget: "\<not> isRunning s \<Longrightarrow> runningHasTarget s"
  by (simp add: runningHasTarget_def)

lemma startTimer_runningHasTarget:
  "runningHasTarget s \<Longrightarrow> runningHasTarget (startTimer now s)"
  by (simp add: runningHasTarget_def startTimer_def Let_def clearTimer_def split: option.splits)

lemma resetCurrentPhase_stops:
  "resetCurrentPhase now s = Some s' \<Longrightarrow> \<not> isRunning s'"
  by (auto simp: resetCurrentPhase_def Let_def split: option.splits)

lemma moveToNextPhase_stops:
  "moveToNextPhase a c now s = Some s' \<Longrightarrow> \<not> isRunning s'"
  by (auto simp: moveToNextPhase_def Let_def showMilestoneModal_def clearTimer_def
      split: option.splits if_splits)

lemma applySettings_runningHasTarget:
  "applySettings now s = Some s' \<Longrightarrow> runningHasTarget s'"
proof -
  assume a: "applySettings now s = Some s'"
  then obtain s5 where r: "\<not> isRunning s5"
    and s': "s' = (if wasRunningBeforeSettings s5 then startTimer now s5 else s5)
                    \<lparr>wasRunningBeforeSettings := False\<rparr>"
    by (auto simp: applySettings_def Let_def split: option.splits dest: resetCurrentPhase_stops)
  from r have "runningHasTarget (if wasRunningBeforeSettings s5 then startTimer now s5 else s5)"
    by (simp add: stopped_runningHasTarget startTimer_runningHasTarget)
  with s' show ?thesis by (simp add: runningHasTarget_def)
qed

lemma acknowledgeMilestone_stops:
  "acknowledgeMilestone now s = Some s' \<Longrightarrow> \<not> isRunning s'"
  by (auto simp: acknowledgeMilestone_def Let_def split: option.splits)

lemma intervalCallback_runningHasTarget:
  "runningHasTarget s \<Longrightarrow> intervalCallback now s = Some s' \<Longrightarrow> runningHasTarget s'"
  by (auto simp: intervalCallback_def Let_def runningHasTarget_def
      dest: moveToNextPhase_stops split: if_splits)

lemma dispatch_runningHasTarget:
  assumes "runningHasTarget s" and "dispatch e s = Some s'"
  shows "runningHasTarget s'"
proof (cases e)
  case (Click now)
  with assms show ?thesis
    by (auto simp: handleSingleClick_def stopped_runningHasTarget startTimer_runningHasTarget)
next
  case (DblClick now)
  with assms show ?thesis
    by (auto simp: overlayDblClick_def stopped_runningHasTarget
        dest: resetCurrentPhase_stops split: if_splits)
next
  case (NextClick now)
  with assms show ?thesis
    by (auto simp: nextButtonClick_def stopped_runningHasTarget
        dest: moveToNextPhase_stops split: if_splits)
next
  case (SettingsClick now)
  with assms show ?thesis
    by (auto simp: runningHasTarget_def settingsButtonClick_def Let_def split: if_splits)
next
  case (BackClick now)
  with assms show ?thesis
    by (auto dest: applySettings_runningHasTarget)
next
  case (MilestoneOk now)
  with assms show ?thesis
    by (auto simp: stopped_runningHasTarget dest: acknowledgeMilestone_stops)
next
  case (IntervalFires i now)
  with assms show ?thesis
    by (auto simp: intervalFires_def
        dest: intervalCallback_runningHasTarget split: if_splits)
next
  case (TimeoutFires i now)
  from assms(1) have "runningHasTarget (s\<lparr>liveTimeouts := removeAll i (liveTimeouts s)\<rparr>)"
    by (simp add: runningHasTarget_def)
  with TimeoutFires assms show ?thesis
    by (auto simp: timeoutFires_def startTimer_runningHasTarget split: if_splits)
next
  case (WorkInput raw)
  with assms draft_edits(1) [of raw s] show ?thesis by (auto simp: runningHasTarget_def)
next
  case (BreakInput raw)
  with assms draft_edits(2) [of raw s] show ?thesis by (auto simp: runningHasTarget_def)
next
  case (LongBreakInput raw)
  with assms draft_edits(3) [of raw s] show ?thesis by (auto simp: runningHasTarget_def)
next
  case (HandleMoved key raw)
  with assms draft_edits(4) [of key raw s] show ?thesis by (auto simp: runningHasTarget_def)
qed

lemma pause_running:
  assumes "isRunning s" and "targetTimestamp s = Some t"
  shows "remaining (pauseTimer now s) = max 0 (roundSeconds (t - now))"
  using assms by (simp add: pauseTimer_def Let_def clearTimer_def split: option.splits)


section \<open>Unfolding the model on concrete states\<close>

lemmas engine_defs =
  startTimer_def pauseTimer_def resetCurrentPhase_def showMilestoneModal_def
  finalizeCurrentPhase_def moveToNextPhase_def intervalCallback_def
  clearTimer_def freshTimerId_def roundSeconds_def diffToTarget_def jsRem_def phaseAt_def
  Let_def

lemmas command_defs =
  handleSingleClick_def overlayDblClick_def nextButtonClick_def settingsButtonClick_def
  applySettings_def acknowledgeMilestone_def intervalFires_def timeoutFires_def
  workInputHandler_def breakInputHandler_def longBreakInputHandler_def
  updateDraftDurationFromHandle_def
  buildPhases_def MIN_BREAK_MINUTES_def MAX_BREAK_MINUTES_def MIN_LONG_BREAK_MINUTES_def

section \<open>Pausing\<close>

text \<open>
  C9: \<open>pauseTimer\<close> is idempotent. From every state, and whatever the clock shows at
  the two calls, a second \<open>pauseTimer()\<close> right after a first one changes nothing: the
  first call leaves \<open>isRunning\<close> false and \<open>intervalId\<close> null, so the second returns
  at its guard; in particular \<open>remaining\<close> is the same after both.
\<close>

theorem pauseTimer_idempotent:
  "pauseTimer now2 (pauseTimer now1 s) = pauseTimer now1 s
   \<and> remaining (pauseTimer now2 (pauseTimer now1 s)) = remaining (pauseTimer now1 s)"
  by (simp add: pauseTimer_idle)

lemma startTimer_target:
  "targetTimestamp s \<noteq> None \<Longrightarrow> targetTimestamp (startTimer now s) \<noteq> None"
  by (simp add: startTimer_def Let_def clearTimer_def split: option.splits)

lemma dispatch_clears_target:
  assumes "dispatch e s = Some s'" and "targetTimestamp s \<noteq> None"
    and "targetTimestamp s' = None"
  shows "(\<exists>now. e = DblClick now) \<or> (\<exists>now. e = NextClick now)
       \<or> (\<exists>now. e = BackClick now) \<or> (\<exists>i now. e = IntervalFires i now)"
proof (cases e)
  case (Click now)
  with assms startTimer_target [of s now] show ?thesis
    by (auto simp: handleSingleClick_def split: if_splits)
next
  case (SettingsClick now)
  with assms show ?thesis
    by (auto simp: settingsButtonClick_def Let_def split: if_splits)
next
  case (MilestoneOk now)
  with assms show ?thesis by (auto dest: acknowledgeMilestone_frame(11))
next
  case (TimeoutFires i now)
  with assms startTimer_target [of "s\<lparr>liveTimeouts := removeAll i (liveTimeouts s)\<rparr>" now]
  show ?thesis by (auto simp: timeoutFires_def split: if_splits)
next
  case (WorkInput raw)
  with assms draft_edits(1) [of raw s] show ?thesis by auto
next
  case (BreakInput raw)
  with assms draft_edits(2) [of raw s] show ?thesis by auto
next
  case (LongBreakInput raw)
  with assms draft_edits(3) [of raw s] show ?thesis by auto
next
  case (HandleMoved key raw)
  with assms draft_edits(4) [of key raw s] show ?thesis by auto
qed simp_all

lemma pauseTimer_drops_interval:
  "intervalId s = Some i \<Longrightarrow> i \<notin> set (liveIntervals (pauseTimer now s))"
  by (simp add: pauseTimer_def Let_def clearTimer_def split: option.splits)

text \<open>
  C3, as stated, fails: \<open>pauseTimer\<close> never assigns \<open>targetTimestamp\<close>. Started on the
  initial state at time 0 and paused at time 1000, the timer is no longer running, its
  app state is \<open>PAUSED\<close>, and \<open>targetTimestamp\<close> is still the 1500000 that
  \<open>startTimer\<close> computed. Nor does \<open>timerState.appState\<close> track the target in the
  other direction: after eight skips and the acknowledgement of the milestone, and also
  after the refresh callback has ended a phase, the app state is \<open>RUNNING\<close> while the
  countdown does not run and \<open>targetTimestamp\<close> is null.
\<close>

theorem pause_keeps_targetTimestamp:
  "isRunning (startTimer 0 initialState)
   \<and> targetTimestamp (startTimer 0 initialState) = Some 1500000
   \<and> appState (startTimer 0 initialState) = RUNNING
   \<and> \<not> isRunning (pauseTimer 1000 (startTimer 0 initialState))
   \<and> appState (pauseTimer 1000 (startTimer 0 initialState)) = PAUSED
   \<and> targetTimestamp (pauseTimer 1000 (startTimer 0 initialState)) = Some 1500000
   \<and> map_option (\<lambda>s. (appState s, isRunning s, targetTimestamp s))
        (run [NextClick 1, NextClick 2, NextClick 3, NextClick 4, NextClick 5, NextClick 6,
              NextClick 7, NextClick 8, MilestoneOk 9] initialState)
      = Some (RUNNING, False, None)
   \<and> map_option (\<lambda>s. (appState s, isRunning s, targetTimestamp s))
        (run [Click 0, IntervalFires 1 1500000] initialState)
      = Some (RUNNING, False, None)"
  by (simp add: initialState_def initialPhases_def engine_defs command_defs)

text \<open>
  C3, amended. "Running" is the flag \<open>isRunning\<close>, and only one direction is kept:
  while the countdown runs, \<open>targetTimestamp\<close> is set. That holds when the script has
  run and every event preserves it. A set \<open>targetTimestamp\<close> becomes null only in a
  double click (\<open>resetCurrentPhase\<close>), a click on Next or a run of the refresh callback
  (\<open>moveToNextPhase\<close>), or a click on the settings panel's back button
  (\<open>applySettings\<close>). \<open>pauseTimer\<close> on a running timer whose target is \<open>t\<close> recomputes
  \<open>remaining\<close> as \<open>max 0 (round ((t - now) / 1000))\<close>, leaves \<open>targetTimestamp\<close> at
  \<open>t\<close>, stops the countdown and cancels the refresh: \<open>intervalId\<close> is null, the interval
  it held is no longer scheduled, and where that was the only interval scheduled (as in
  every reachable state) none is left.
\<close>

theorem running_has_target_preserved:
  assumes "runningHasTarget s" and "dispatch e s = Some s'"
  shows "runningHasTarget (startupState saved)
    \<and> runningHasTarget s'
    \<and> (targetTimestamp s \<noteq> None \<and> targetTimestamp s' = None \<longrightarrow>
          (\<exists>now. e = DblClick now) \<or> (\<exists>now. e = NextClick now)
          \<or> (\<exists>now. e = BackClick now) \<or> (\<exists>i now. e = IntervalFires i now))
    \<and> (\<forall>t. isRunning s \<and> targetTimestamp s = Some t \<longrightarrow>
          remaining (pauseTimer now s) = max 0 (roundSeconds (t - now))
          \<and> targetTimestamp (pauseTimer now s) = Some t
          \<and> \<not> isRunning (pauseTimer now s)
          \<and> intervalId (pauseTimer now s) = None
          \<and> (\<forall>i. intervalId s = Some i \<longrightarrow> i \<notin> set (liveIntervals (pauseTimer now s)))
          \<and> (intervalsTracked s \<longrightarrow> liveIntervals (pauseTimer now s) = []))
    \<and> (reachable s \<longrightarrow> intervalsTracked s)"
proof (intro conjI)
  show "runningHasTarget (startupState saved)" by (rule startup_invariants)
  show "runningHasTarget s'" using assms by (rule dispatch_runningHasTarget)
  show "targetTimestamp s \<noteq> None \<and> targetTimestamp s' = None \<longrightarrow>
          (\<exists>now. e = DblClick now) \<or> (\<exists>now. e = NextClick now)
          \<or> (\<exists>now. e = BackClick now) \<or> (\<exists>i now. e = IntervalFires i now)"
    using dispatch_clears_target [OF assms(2)] by blast
  show "\<forall>t. isRunning s \<and> targetTimestamp s = Some t \<longrightarrow>
          remaining (pauseTimer now s) = max 0 (roundSeconds (t - now))
          \<and> targetTimestamp (pauseTimer now s) = Some t
          \<and> \<not> isRunning (pauseTimer now s)
          \<and> intervalId (pauseTimer now s) = None
          \<and> (\<forall>i. intervalId s = Some i \<longrightarrow> i \<notin> set (liveIntervals (pauseTimer now s)))
          \<and> (intervalsTracked s \<longrightarrow> liveIntervals (pauseTimer now s) = [])"
    by (simp add: pause_running pauseTimer_drops_interval pauseTimer_unschedules)
  show "reachable s \<longrightarrow> intervalsTracked s" by (simp add: reachable_invariants)
qed

theorem running_has_target_preserved_witness:
  "runningHasTarget (startTimer 0 initialState)
   \<and> dispatch (Click 1000) (startTimer 0 initialState)
       = Some (pauseTimer 1000 (startTimer 0 initialState))
   \<and> isRunning (startTimer 0 initialState)
   \<and> intervalId (startTimer 0 initialState) = Some 1
   \<and> liveIntervals (startTimer 0 initialState) = [1]
   \<and> runningHasTarget (pauseTimer 1000 (startTimer 0 initialState))
   \<and> remaining (pauseTimer 1000 (startTimer 0 initialState)) = 1499
   \<and> targetTimestamp (pauseTimer 1000 (startTimer 0 initialState)) = Some 1500000
   \<and> liveIntervals (pauseTimer 1000 (startTimer 0 initialState)) = []"
proof -
  have h1: "runningHasTarget (startTimer 0 initialState)"
    by (simp add: runningHasTarget_def initialState_def engine_defs)
  have h2: "dispatch (Click 1000) (startTimer 0 initialState)
              = Some (pauseTimer 1000 (startTimer 0 initialState))"
    by (simp add: handleSingleClick_def initialState_def startTimer_def Let_def)
  have t: "targetTimestamp (startTimer 0 initialState) = Some 1500000"
    and r: "isRunning (startTimer 0 initialState)"
    and i: "intervalId (startTimer 0 initialState) = Some 1"
    and l: "liveIntervals (startTimer 0 initialState) = [1]"
    by (simp_all add: initialState_def engine_defs)
  have k: "intervalsTracked (startTimer 0 initialState)"
    using i l by (simp add: intervalsTracked_def)
  from running_has_target_preserved [OF h1 h2, of None 1000] t r k
  have "runningHasTarget (pauseTimer 1000 (startTimer 0 initialState))
        \<and> remaining (pauseTimer 1000 (startTimer 0 initialState)) = max 0 (roundSeconds (1500000 - 1000))
        \<and> targetTimestamp (pauseTimer 1000 (startTimer 0 initialState)) = Some 1500000
        \<and> liveIntervals (pauseTimer 1000 (startTimer 0 initialState)) = []"
    by blast
  with h1 h2 r i l show ?thesis by (simp add: roundSeconds_def)
qed

section \<open>Statistics\<close>

lemma finalize_skipped:
  "completedWorkSessions (finalizeCurrentPhase False s) = completedWorkSessions s"
  by (simp add: finalizeCurrentPhase_def Let_def)

lemma finalize_completed_at_zero:
  assumes "remaining s = 0" and "type (currentPhase s) = Work"
  shows "completedWorkSessions (finalizeCurrentPhase True s) = completedWorkSessions s + 1"
    and "totalWorkSeconds (finalizeCurrentPhase True s)
           = totalWorkSeconds s + duration (currentPhase s)"
  using assms by (auto simp: finalizeCurrentPhase_def Let_def)

lemma finalize_other_phase:
  "type (currentPhase s) \<noteq> Work \<Longrightarrow>
     completedWorkSessions (finalizeCurrentPhase c s) = completedWorkSessions s"
  by (simp add: finalizeCurrentPhase_def)

lemma callback_ends_work_phase:
  assumes "intervalFires i now s = Some s'" and "i \<in> set (liveIntervals s)"
    and "roundSeconds (diffToTarget (targetTimestamp s) now) \<le> 0"
    and "type (currentPhase s) = Work"
  shows "completedWorkSessions s' = completedWorkSessions s + 1"
    and "totalWorkSeconds s' = totalWorkSeconds s + duration (currentPhase s)"
proof -
  let ?s2 = "(case intervalId s of None \<Rightarrow> s\<lparr>remaining := 0\<rparr>
           | Some i \<Rightarrow> clearTimer i (s\<lparr>remaining := 0\<rparr>))\<lparr>intervalId := None, isRunning := False\<rparr>"
  from assms(1,2) have "intervalCallback now s = Some s'" by (simp add: intervalFires_def)
  then have m: "moveToNextPhase True True now ?s2 = Some s'"
    using assms(3) by (cases rule: intervalCallback_cases) simp_all
  have f: "remaining ?s2 = 0" "type (currentPhase ?s2) = Work"
    "completedWorkSessions ?s2 = completedWorkSessions s"
    "totalWorkSeconds ?s2 = totalWorkSeconds s" "currentPhase ?s2 = currentPhase s"
    using assms(4) by (simp_all add: clearTimer_def split: option.splits)
  from moveToNextPhase_frame(11) [OF m] finalize_completed_at_zero(1) [OF f(1,2)] f(3)
  show "completedWorkSessions s' = completedWorkSessions s + 1" by simp
  from moveToNextPhase_frame(12) [OF m] finalize_completed_at_zero(2) [OF f(1,2)] f(4,5)
  show "totalWorkSeconds s' = totalWorkSeconds s + duration (currentPhase s)" by simp
qed

lemma dispatch_completed:
  assumes "dispatch e s = Some s'"
  shows "completedWorkSessions s' = completedWorkSessions s
     \<or> (\<exists>now. e = MilestoneOk now)
     \<or> (\<exists>i now. e = IntervalFires i now \<and> i \<in> set (liveIntervals s)
           \<and> roundSeconds (diffToTarget (targetTimestamp s) now) \<le> 0
           \<and> type (currentPhase s) = Work)"
proof (cases e)
  case (Click now)
  with assms show ?thesis by (auto simp: handleSingleClick_def)
next
  case (DblClick now)
  with assms show ?thesis
    by (auto simp: overlayDblClick_def split: if_splits dest: resetCurrentPhase_frame(15))
next
  case (NextClick now)
  with assms show ?thesis
    by (auto simp: nextButtonClick_def finalize_skipped split: if_splits
        dest: moveToNextPhase_frame(11))
next
  case (SettingsClick now)
  with assms show ?thesis by (auto simp: settingsButtonClick_def Let_def)
next
  case (BackClick now)
  with assms applySettings_result [of now s] show ?thesis by auto
next
  case (MilestoneOk now)
  then show ?thesis by simp
next
  case (IntervalFires i now)
  show ?thesis
  proof (cases "i \<in> set (liveIntervals s)")
    case False
    with IntervalFires assms show ?thesis by (simp add: intervalFires_def)
  next
    case True
    with IntervalFires assms have "intervalCallback now s = Some s'"
      by (simp add: intervalFires_def)
    then show ?thesis
    proof (cases rule: intervalCallback_cases)
      case tick
      then show ?thesis by simp
    next
      case ends
      show ?thesis
      proof (cases "type (currentPhase s) = Work")
        case True
        with IntervalFires \<open>i \<in> set (liveIntervals s)\<close> ends(1) show ?thesis by simp
      next
        case False
        then have "completedWorkSessions
            (finalizeCurrentPhase True
              ((case intervalId s of None \<Rightarrow> s\<lparr>remaining := 0\<rparr>
                | Some i \<Rightarrow> clearTimer i (s\<lparr>remaining := 0\<rparr>))\<lparr>intervalId := None, isRunning := False\<rparr>))
            = completedWorkSessions s"
          by (subst finalize_other_phase) (simp_all add: clearTimer_def split: option.splits)
        with moveToNextPhase_frame(11) [OF ends(2)] show ?thesis by simp
      qed
    qed
  qed
next
  case (TimeoutFires i now)
  with assms show ?thesis by (auto simp: timeoutFires_def)
next
  case (WorkInput raw)
  with assms draft_edits(1) [of raw s] show ?thesis by auto
next
  case (BreakInput raw)
  with assms draft_edits(2) [of raw s] show ?thesis by auto
next
  case (LongBreakInput raw)
  with assms draft_edits(3) [of raw s] show ?thesis by auto
next
  case (HandleMoved key raw)
  with assms draft_edits(4) [of key raw s] show ?thesis by auto
qed

text \<open>
  C4: a Work phase is finalized with \<open>completed = true\<close> only by the refresh callback,
  which has just found no time left and set \<open>remaining\<close> to 0; every other caller of
  \<open>moveToNextPhase\<close> passes \<open>false\<close>. So, in every reachable state, an event changes
  \<open>completedWorkSessions\<close> only if it is the acknowledgement of the milestone (the reset)
  or a run of the refresh callback that ends a Work phase; and when the refresh callback
  ends a Work phase, \<open>completedWorkSessions\<close> grows by 1 and \<open>totalWorkSeconds\<close> grows
  by the maximum of the elapsed seconds and the phase's duration, which is the full
  duration: the elapsed seconds at that moment equal it.
\<close>

theorem completed_work_phase_credit:
  assumes "reachable s" and "dispatch e s = Some s'"
  shows "(completedWorkSessions s' = completedWorkSessions s
           \<or> (\<exists>now. e = MilestoneOk now)
           \<or> (\<exists>i now. e = IntervalFires i now \<and> i \<in> set (liveIntervals s)
                 \<and> roundSeconds (diffToTarget (targetTimestamp s) now) \<le> 0
                 \<and> type (currentPhase s) = Work))
    \<and> (\<forall>i now. e = IntervalFires i now \<and> i \<in> set (liveIntervals s)
            \<and> roundSeconds (diffToTarget (targetTimestamp s) now) \<le> 0
            \<and> type (currentPhase s) = Work \<longrightarrow>
          completedWorkSessions s' = completedWorkSessions s + 1
          \<and> elapsedSeconds (s\<lparr>remaining := 0\<rparr>) = duration (currentPhase s)
          \<and> totalWorkSeconds s'
              = totalWorkSeconds s
                + max (elapsedSeconds (s\<lparr>remaining := 0\<rparr>)) (duration (currentPhase s)))"
proof -
  from assms(1) have "phasesPositive s" by (simp add: reachable_invariants)
  then have el: "elapsedSeconds (s\<lparr>remaining := 0\<rparr>) = duration (currentPhase s)"
    by (simp add: phasesPositive_def elapsedSeconds_def)
  have "completedWorkSessions s' = completedWorkSessions s + 1
          \<and> totalWorkSeconds s' = totalWorkSeconds s + duration (currentPhase s)"
    if "e = IntervalFires i now" "i \<in> set (liveIntervals s)"
      "roundSeconds (diffToTarget (targetTimestamp s) now) \<le> 0"
      "type (currentPhase s) = Work" for i now
    using callback_ends_work_phase [of i now s s'] that assms(2) by simp
  with el dispatch_completed [OF assms(2)] show ?thesis by simp
qed

theorem completed_work_phase_credit_witness:
  "reachable (startTimer 0 initialState)
   \<and> type (currentPhase (startTimer 0 initialState)) = Work
   \<and> 1 \<in> set (liveIntervals (startTimer 0 initialState))
   \<and> roundSeconds (diffToTarget (targetTimestamp (startTimer 0 initialState)) 1500000) \<le> 0
   \<and> completedWorkSessions (startTimer 0 initialState) = 0
   \<and> totalWorkSeconds (startTimer 0 initialState) = 0
   \<and> (\<exists>s'. dispatch (IntervalFires 1 1500000) (startTimer 0 initialState) = Some s'
          \<and> completedWorkSessions s' = 1 \<and> totalWorkSeconds s' = 1500)"
proof -
  let ?s = "startTimer 0 initialState"
  have "dispatch (Click 0) initialState = Some ?s"
    by (simp add: handleSingleClick_def initialState_def)
  with reachable_initialState have r: "reachable ?s" by (rule reachable.step)
  obtain s' where d: "dispatch (IntervalFires 1 1500000) ?s = Some s'"
    by (simp add: initialState_def initialPhases_def engine_defs command_defs)
  have f: "type (currentPhase ?s) = Work" "1 \<in> set (liveIntervals ?s)"
    "roundSeconds (diffToTarget (targetTimestamp ?s) 1500000) \<le> 0"
    "completedWorkSessions ?s = 0" "totalWorkSeconds ?s = 0"
    "duration (currentPhase ?s) = 1500" "remaining ?s = 1500"
    by (simp_all add: initialState_def engine_defs)
  from completed_work_phase_credit [OF r d] f
  have "completedWorkSessions s' = 1 \<and> totalWorkSeconds s' = 1500"
    by (simp add: elapsedSeconds_def)
  with r d f show ?thesis by simp
qed

section \<open>Acknowledging the milestone\<close>

text \<open>
  C2, as stated, fails: the OK handler never assigns \<open>totalWorkSeconds\<close>. Start the first
  Work phase at time 0, pause it after one minute, skip that phase and the seven after
  it, and acknowledge the milestone: the three counters and the phase index are 0, the
  milestone is no longer pending, and \<open>totalWorkSeconds\<close> is still 60.
\<close>

theorem milestone_ok_keeps_total:
  "map_option (\<lambda>s. (completedWorkSessions s, skippedNotStartedWorkSessions s,
                     skippedNotCompletedWorkSessions s, totalWorkSeconds s,
                     currentPhaseIndex s, milestonePendingReset s))
     (run [Click 0, Click 60000, NextClick 61000, NextClick 62000, NextClick 63000,
           NextClick 64000, NextClick 65000, NextClick 66000, NextClick 67000,
           NextClick 68000, MilestoneOk 70000] initialState)
   = Some (0, 0, 0, 60, 0, False)"
  by (simp add: initialState_def initialPhases_def engine_defs command_defs)

text \<open>
  C2, amended: with a schedule in place, the OK handler returns, and after it
  \<open>completedWorkSessions\<close>, \<open>skippedNotStartedWorkSessions\<close> and
  \<open>skippedNotCompletedWorkSessions\<close> are 0 and \<open>currentPhaseIndex\<close> is 0, while
  \<open>totalWorkSeconds\<close> keeps its value.
\<close>

theorem acknowledgeMilestone_resets:
  assumes "phases s \<noteq> []"
  shows "\<exists>s'. acknowledgeMilestone now s = Some s'
    \<and> completedWorkSessions s' = 0
    \<and> skippedNotStartedWorkSessions s' = 0
    \<and> skippedNotCompletedWorkSessions s' = 0
    \<and> currentPhaseIndex s' = 0
    \<and> totalWorkSeconds s' = totalWorkSeconds s"
  using assms by (simp add: acknowledgeMilestone_def Let_def phaseAt_def)

theorem acknowledgeMilestone_resets_witness:
  "run [Click 0, IntervalFires 1 1500000, TimeoutFires 2 1500600, NextClick 1501000,
        TimeoutFires 4 1501600, Click 1561600, NextClick 1562000, NextClick 1563000,
        NextClick 1564000, NextClick 1565000, NextClick 1566000, NextClick 1567000]
     initialState = Some pendingAfterMixedSet
   \<and> phases pendingAfterMixedSet \<noteq> []
   \<and> milestonePendingReset pendingAfterMixedSet
   \<and> completedWorkSessions pendingAfterMixedSet = 1
   \<and> skippedNotStartedWorkSessions pendingAfterMixedSet = 2
   \<and> skippedNotCompletedWorkSessions pendingAfterMixedSet = 1
   \<and> currentPhaseIndex pendingAfterMixedSet = 7
   \<and> totalWorkSeconds pendingAfterMixedSet = 1560
   \<and> (\<exists>s'. acknowledgeMilestone 1570000 pendingAfterMixedSet = Some s'
        \<and> completedWorkSessions s' = 0
        \<and> skippedNotStartedWorkSessions s' = 0
        \<and> skippedNotCompletedWorkSessions s' = 0
        \<and> currentPhaseIndex s' = 0
        \<and> totalWorkSeconds s' = 1560)"
proof -
  have r: "run [Click 0, IntervalFires 1 1500000, TimeoutFires 2 1500600, NextClick 1501000,
        TimeoutFires 4 1501600, Click 1561600, NextClick 1562000, NextClick 1563000,
        NextClick 1564000, NextClick 1565000, NextClick 1566000, NextClick 1567000]
     initialState = Some pendingAfterMixedSet"
    by (simp add: pendingAfterMixedSet_def initialState_def initialPhases_def
        engine_defs command_defs)
  have h: "phases pendingAfterMixedSet \<noteq> []"
    by (simp add: pendingAfterMixedSet_def initialState_def initialPhases_def)
  have f: "milestonePendingReset pendingAfterMixedSet"
    "completedWorkSessions pendingAfterMixedSet = 1"
    "skippedNotStartedWorkSessions pendingAfterMixedSet = 2"
    "skippedNotCompletedWorkSessions pendingAfterMixedSet = 1"
    "currentPhaseIndex pendingAfterMixedSet = 7"
    "totalWorkSeconds pendingAfterMixedSet = 1560"
    by (simp_all add: pendingAfterMixedSet_def)
  from acknowledgeMilestone_resets [OF h, of 1570000] f(6)
  have "\<exists>s'. acknowledgeMilestone 1570000 pendingAfterMixedSet = Some s'
        \<and> completedWorkSessions s' = 0
        \<and> skippedNotStartedWorkSessions s' = 0
        \<and> skippedNotCompletedWorkSessions s' = 0
        \<and> currentPhaseIndex s' = 0
        \<and> totalWorkSeconds s' = 1560"
    by simp
  with r h f show ?thesis by blast
qed

section \<open>Committing the settings\<close>

lemma resetCurrentPhase_keeps:
  assumes "resetCurrentPhase now s = Some s'"
  shows "workMinutes s' = workMinutes s" "breakMinutes s' = breakMinutes s"
    "longBreakMinutes s' = longBreakMinutes s"
    "wasRunningBeforeSettings s' = wasRunningBeforeSettings s"
  using assms by (auto simp: resetCurrentPhase_def Let_def split: option.splits)

lemma resetCurrentPhase_returns:
  "0 \<le> currentPhaseIndex s \<Longrightarrow> currentPhaseIndex s < int (length (phases s)) \<Longrightarrow>
     \<exists>s'. resetCurrentPhase now s = Some s'"
  by (simp add: resetCurrentPhase_def Let_def phaseAt_def)

lemma applySettings_minutes:
  "\<exists>s'. applySettings now s = Some s'
     \<and> workMinutes s' = max 5 (clampMinutes (work (draftDurations s)))
     \<and> breakMinutes s' = max 1 (min 10 (clampMinutes (shortBreak (draftDurations s))))
     \<and> longBreakMinutes s' = max 5 (clampMinutes (longBreak (draftDurations s)))"
  by (simp add: applySettings_def Let_def phaseAt_def buildPhases_length resetCurrentPhase_def
      MIN_BREAK_MINUTES_def MAX_BREAK_MINUTES_def MIN_LONG_BREAK_MINUTES_def)

text \<open>
  C10: \<open>applySettings\<close> returns for every state, whatever the draft holds, \<open>NaN\<close>
  included, and never throws; the committed work minutes lie in 5..60, the short break
  in 1..10 and the long break in 5..60; \<open>clampMinutes(NaN)\<close> is 1, so a \<open>NaN\<close> draft
  value commits as the lower bound of its range: 5 for work, 1 for the short break and
  5 for the long break.
\<close>

theorem applySettings_total_bounded:
  "\<exists>s'. applySettings now s = Some s'
     \<and> 5 \<le> workMinutes s' \<and> workMinutes s' \<le> 60
     \<and> 1 \<le> breakMinutes s' \<and> breakMinutes s' \<le> 10
     \<and> 5 \<le> longBreakMinutes s' \<and> longBreakMinutes s' \<le> 60
     \<and> clampMinutes NaN = 1
     \<and> (work (draftDurations s) = NaN \<longrightarrow> workMinutes s' = 5)
     \<and> (shortBreak (draftDurations s) = NaN \<longrightarrow> breakMinutes s' = 1)
     \<and> (longBreak (draftDurations s) = NaN \<longrightarrow> longBreakMinutes s' = 5)"
proof -
  from applySettings_minutes [of now s] obtain s' where
    r: "applySettings now s = Some s'"
    and w: "workMinutes s' = max 5 (clampMinutes (work (draftDurations s)))"
    and b: "breakMinutes s' = max 1 (min 10 (clampMinutes (shortBreak (draftDurations s))))"
    and l: "longBreakMinutes s' = max 5 (clampMinutes (longBreak (draftDurations s)))"
    by blast
  have "5 \<le> workMinutes s' \<and> workMinutes s' \<le> 60"
    using w clampMinutes_range [of "work (draftDurations s)"] by simp
  moreover have "1 \<le> breakMinutes s' \<and> breakMinutes s' \<le> 10"
    using b by simp
  moreover have "5 \<le> longBreakMinutes s' \<and> longBreakMinutes s' \<le> 60"
    using l clampMinutes_range [of "longBreak (draftDurations s)"] by simp
  moreover have "work (draftDurations s) = NaN \<longrightarrow> workMinutes s' = 5"
    using w by simp
  moreover have "shortBreak (draftDurations s) = NaN \<longrightarrow> breakMinutes s' = 1"
    using b by simp
  moreover have "longBreak (draftDurations s) = NaN \<longrightarrow> longBreakMinutes s' = 5"
    using l by simp
  ultimately show ?thesis using r by simp
qed

theorem applySettings_total_bounded_witness:
  "work (draftDurations (initialState\<lparr>draftDurations := \<lparr>work = NaN, shortBreak = NaN, longBreak = NaN\<rparr>\<rparr>)) = NaN
   \<and> (\<exists>s'. applySettings 0 (initialState\<lparr>draftDurations := \<lparr>work = NaN, shortBreak = NaN, longBreak = NaN\<rparr>\<rparr>) = Some s'
         \<and> workMinutes s' = 5 \<and> breakMinutes s' = 1 \<and> longBreakMinutes s' = 5)"
  using applySettings_total_bounded
    [of 0 "initialState\<lparr>draftDurations := \<lparr>work = NaN, shortBreak = NaN, longBreak = NaN\<rparr>\<rparr>"]
  by auto

lemma typed_work_commits:
  assumes "settingsOpen s"
  shows "\<exists>s'. run [WorkInput raw, BackClick now] s = Some s'
           \<and> workMinutes s' = max 10 (clampMinutes raw)"
proof -
  let ?v = "if clampMinutes raw < 10 then 10 else clampMinutes raw"
  have d: "work (draftDurations (workInputHandler raw s)) = Num ?v"
    using assms by (simp add: workInputHandler_def Let_def)
  have "max 5 (clampMinutes (Num ?v)) = max 10 (clampMinutes raw)"
    using clampMinutes_range [of raw] by auto
  with applySettings_result [of now "workInputHandler raw s"] d show ?thesis by auto
qed

lemma dragged_work_commits:
  "\<exists>s'. run [HandleMoved KeyWork raw, BackClick now] s = Some s'
           \<and> workMinutes s' = max 10 (clampMinutes (if raw = Num 0 then Num 60 else raw))"
proof -
  let ?c = "clampMinutes (if raw = Num 0 then Num 60 else raw)"
  let ?v = "if ?c < 10 then 10 else ?c"
  have d: "work (draftDurations (updateDraftDurationFromHandle KeyWork raw s)) = Num ?v"
    by (simp add: updateDraftDurationFromHandle_def Let_def)
  have "max 5 (clampMinutes (Num ?v)) = max 10 ?c"
    using clampMinutes_range [of "if raw = Num 0 then Num 60 else raw"] by auto
  with applySettings_result [of now "updateDraftDurationFromHandle KeyWork raw s"] d
  show ?thesis by auto
qed

text \<open>
  C1: committing the settings clamps the work duration to at least 10 minutes. In every
  reachable state the click on the back button returns and the committed
  \<open>workMinutes\<close> is at least 10, namely the draft's value clamped to 10..60: every
  writer of the work draft (start-up, the settings button, the work input, the duration
  handle) stores a number of at least 10, so the \<open>Math.max(5, ...)\<close> of \<open>applySettings\<close>
  never lowers the bound. A work value \<open>raw\<close> typed into the open settings panel commits
  as \<open>max 10 (clampMinutes raw)\<close>, so a typed 3 commits as 10; and so does a value set
  with the duration handle (where 0 stands for 60).
\<close>

theorem commit_clamps_work_to_minimum:
  assumes "reachable s"
  shows "(\<exists>s'. dispatch (BackClick now) s = Some s'
            \<and> 10 \<le> workMinutes s'
            \<and> workMinutes s' = max 10 (clampMinutes (work (draftDurations s))))
    \<and> (settingsOpen s \<longrightarrow>
          (\<exists>s'. run [WorkInput raw, BackClick now] s = Some s'
             \<and> workMinutes s' = max 10 (clampMinutes raw)))
    \<and> (\<exists>s'. run [HandleMoved KeyWork raw, BackClick now] s = Some s'
          \<and> workMinutes s' = max 10 (clampMinutes (if raw = Num 0 then Num 60 else raw)))"
proof -
  from assms have "minutesValid s" by (simp add: reachable_invariants)
  then obtain v where v: "work (draftDurations s) = Num v" "10 \<le> v"
    by (auto simp: minutesValid_def MIN_WORK_MINUTES_def split: jsnum.splits)
  then have "max 5 (clampMinutes (work (draftDurations s)))
               = max 10 (clampMinutes (work (draftDurations s)))"
    by simp
  with applySettings_result [of now s]
  have "\<exists>s'. dispatch (BackClick now) s = Some s'
            \<and> 10 \<le> workMinutes s'
            \<and> workMinutes s' = max 10 (clampMinutes (work (draftDurations s)))"
    by auto
  with typed_work_commits [of s raw now] dragged_work_commits [of raw now s]
  show ?thesis by blast
qed

theorem commit_clamps_work_to_minimum_witness:
  "reachable (settingsButtonClick 0 initialState)
   \<and> settingsOpen (settingsButtonClick 0 initialState)
   \<and> work (draftDurations (workInputHandler (Num 3) (settingsButtonClick 0 initialState)))
       = Num 10
   \<and> (\<exists>s'. run [WorkInput (Num 3), BackClick 100] (settingsButtonClick 0 initialState) = Some s'
          \<and> workMinutes s' = 10)
   \<and> (\<exists>s'. dispatch (BackClick 100) (settingsButtonClick 0 initialState) = Some s'
          \<and> workMinutes s' = 25)"
proof -
  let ?s = "settingsButtonClick 0 initialState"
  have "dispatch (SettingsClick 0) initialState = Some ?s" by simp
  with reachable_initialState have r: "reachable ?s" by (rule reachable.step)
  have o: "settingsOpen ?s" and d: "work (draftDurations ?s) = Num 25"
    and w: "work (draftDurations (workInputHandler (Num 3) ?s)) = Num 10"
    by (simp_all add: settingsButtonClick_def workInputHandler_def initialState_def
        pauseTimer_def Let_def)
  from commit_clamps_work_to_minimum [OF r, of 100 "Num 3"] o d
  have "(\<exists>s'. run [WorkInput (Num 3), BackClick 100] ?s = Some s' \<and> workMinutes s' = 10)
      \<and> (\<exists>s'. dispatch (BackClick 100) ?s = Some s' \<and> workMinutes s' = 25)"
    by auto
  with r o w show ?thesis by blast
qed

section \<open>Leaving the long break\<close>








section \<open>Wall-clock accuracy\<close>

lemma roundSeconds_exact: "roundSeconds (n * 1000) = n"
  by (simp add: roundSeconds_def)

lemma roundSeconds_mono: "a \<le> b \<Longrightarrow> roundSeconds a \<le> roundSeconds b"
  by (simp add: roundSeconds_def zdiv_mono1)

lemma run_append:
  "run (es @ fs) s = (case run es s of None \<Rightarrow> None | Some s' \<Rightarrow> run fs s')"
  by (induction es arbitrary: s) (auto split: option.splits)

lemma tick_before_end:
  assumes tt: "targetTimestamp s = Some (T + R * 1000)"
    and live: "i \<in> set (liveIntervals s)"
    and t: "t \<le> T + k * 1000" and k: "k < R"
  shows "intervalFires i t s = Some (s\<lparr>remaining := roundSeconds (T + R * 1000 - t)\<rparr>)
         \<and> R - k \<le> roundSeconds (T + R * 1000 - t)"
proof -
  have "(R - k) * 1000 \<le> T + R * 1000 - t" using t by (simp add: algebra_simps)
  from roundSeconds_mono [OF this] roundSeconds_exact [of "R - k"]
  have ge: "R - k \<le> roundSeconds (T + R * 1000 - t)"
    by (simp del: left_diff_distrib)
  with k have pos: "0 < roundSeconds (T + R * 1000 - t)" by simp
  then have "max 0 (roundSeconds (T + R * 1000 - t)) = roundSeconds (T + R * 1000 - t)"
    by simp
  with pos tt live ge show ?thesis
    by (simp add: intervalFires_def intervalCallback_def diffToTarget_def Let_def)
qed

lemma ticks_before_end:
  assumes "targetTimestamp s = Some (T + R * 1000)"
    and "i \<in> set (liveIntervals s)"
    and "\<forall>t\<in>set ts. t \<le> T + k * 1000" and "k < R"
  shows "\<exists>s'. run (map (IntervalFires i) ts) s = Some s'
           \<and> targetTimestamp s' = Some (T + R * 1000)
           \<and> i \<in> set (liveIntervals s')
           \<and> isRunning s' = isRunning s"
  using assms
proof (induction ts arbitrary: s)
  case Nil
  then show ?case by simp
next
  case (Cons t ts)
  from Cons.prems have t: "t \<le> T + k * 1000" by simp
  let ?s1 = "s\<lparr>remaining := roundSeconds (T + R * 1000 - t)\<rparr>"
  from tick_before_end [OF Cons.prems(1) Cons.prems(2) t Cons.prems(4)]
  have step: "intervalFires i t s = Some ?s1" by simp
  have "\<exists>s'. run (map (IntervalFires i) ts) ?s1 = Some s'
           \<and> targetTimestamp s' = Some (T + R * 1000)
           \<and> i \<in> set (liveIntervals s')
           \<and> isRunning s' = isRunning ?s1"
    using Cons.prems by (intro Cons.IH) simp_all
  with step show ?case by simp
qed

lemma startTimer_effective:
  assumes "\<not> isRunning s" "\<not> settingsOpen s" "\<not> milestonePendingReset s"
  shows "targetTimestamp (startTimer now s) = Some (now + remaining s * 1000)"
    and "freshTimerId s \<in> set (liveIntervals (startTimer now s))"
    and "isRunning (startTimer now s)"
    and "intervalId (startTimer now s) = Some (freshTimerId s)"
  using assms
  by (simp_all add: startTimer_def Let_def clearTimer_def freshTimerId_def split: option.splits)

text \<open>
  C6: let \<open>startTimer\<close> take effect at time \<open>T\<close> with \<open>remaining = R\<close>. Then
  \<open>targetTimestamp\<close> is \<open>T + R * 1000\<close>, and for every whole number of seconds \<open>k\<close>
  with \<open>0 < k < R\<close> and every list \<open>ts\<close> of times up to \<open>T + k * 1000\<close> at which the
  refresh callback ran in between (none, few or many), the callbacks all return, the
  timer still runs, and the remaining time observed at \<open>T + k * 1000\<close> is \<open>R - k\<close>,
  whether it is observed by the next run of the refresh callback or by \<open>pauseTimer\<close>.
\<close>

theorem wall_clock_accuracy:
  assumes "\<not> isRunning s" and "\<not> settingsOpen s" and "\<not> milestonePendingReset s"
    and "remaining s = R" and "0 < k" and "k < R"
    and "\<forall>t\<in>set ts. t \<le> T + k * 1000"
  shows "targetTimestamp (startTimer T s) = Some (T + R * 1000)
    \<and> (\<exists>s'. run (map (IntervalFires (freshTimerId s)) ts) (startTimer T s) = Some s'
          \<and> isRunning s'
          \<and> (\<exists>s''. intervalFires (freshTimerId s) (T + k * 1000) s' = Some s''
                 \<and> remaining s'' = R - k)
          \<and> remaining (pauseTimer (T + k * 1000) s') = R - k)"
proof -
  let ?i = "freshTimerId s"
  from startTimer_effective [OF assms(1-3), of T] assms(4)
  have tt: "targetTimestamp (startTimer T s) = Some (T + R * 1000)"
    and live: "?i \<in> set (liveIntervals (startTimer T s))"
    and run0: "isRunning (startTimer T s)"
    by simp_all
  from ticks_before_end [OF tt live assms(7) assms(6)] run0
  obtain s' where r: "run (map (IntervalFires ?i) ts) (startTimer T s) = Some s'"
    and tt': "targetTimestamp s' = Some (T + R * 1000)"
    and live': "?i \<in> set (liveIntervals s')"
    and run': "isRunning s'"
    by auto
  have ex: "roundSeconds (T + R * 1000 - (T + k * 1000)) = R - k"
    using roundSeconds_exact [of "R - k"] by (simp add: algebra_simps)
  from tick_before_end [OF tt' live' order_refl assms(6)] ex
  have last: "intervalFires ?i (T + k * 1000) s' = Some (s'\<lparr>remaining := R - k\<rparr>)"
    by simp
  have "remaining (pauseTimer (T + k * 1000) s') = max 0 (roundSeconds (T + R * 1000 - (T + k * 1000)))"
    using run' tt' by (rule pause_running)
  with ex assms(6) have "remaining (pauseTimer (T + k * 1000) s') = R - k" by simp
  with tt r run' last show ?thesis by simp
qed

theorem wall_clock_accuracy_witness:
  "\<not> isRunning initialState \<and> \<not> settingsOpen initialState
   \<and> \<not> milestonePendingReset initialState \<and> remaining initialState = 1500
   \<and> (\<exists>s'. run (map (IntervalFires 1) [250, 9000, 59750]) (startTimer 0 initialState) = Some s'
          \<and> (\<exists>s''. intervalFires 1 60000 s' = Some s'' \<and> remaining s'' = 1440)
          \<and> remaining (pauseTimer 60000 s') = 1440)"
proof -
  have h: "\<not> isRunning initialState" "\<not> settingsOpen initialState"
    "\<not> milestonePendingReset initialState" "remaining initialState = 1500"
    by (simp_all add: initialState_def)
  have k: "(0::int) < 60" "(60::int) < 1500" by simp_all
  have ts: "\<forall>t\<in>set [250, 9000, 59750]. t \<le> (0::int) + 60 * 1000" by simp
  have f: "freshTimerId initialState = 1" by (simp add: freshTimerId_def initialState_def)
  from wall_clock_accuracy [OF h k ts] f h show ?thesis by auto
qed

section \<open>The delayed auto-start\<close>

text \<open>
  C7: a pending delayed auto-start should be dead once the user pauses or opens the
  settings. \<open>pauseTimer\<close> does hold the \<open>clearTimeout\<close>, but behind its guard
  \<open>if (!isRunning && !intervalId) return\<close>, and a delayed auto-start is pending exactly
  when a phase has just ended, with the countdown stopped and no interval. Start the
  first Work phase at time 0 and let the refresh callback end it at 1500000: the timer
  is stopped and timeout 2 is scheduled. A \<open>pauseTimer\<close> at 1500100 leaves timeout 2
  scheduled, and when it fires the countdown runs. Likewise, opening the settings at
  1500100 (which calls \<open>pauseTimer\<close>) leaves timeout 2 scheduled; committing them at
  1500200 leaves the timer stopped, as it was before the settings were opened; and when
  timeout 2 fires at 1500600 the countdown runs.
\<close>

theorem ghost_auto_start:
  "map_option (\<lambda>s. (isRunning s, intervalId s, autoStartTimeoutId s, liveTimeouts s))
     (run [Click 0, IntervalFires 1 1500000] initialState)
     = Some (False, None, Some 2, [2])
   \<and> map_option (\<lambda>s. liveTimeouts (pauseTimer 1500100 s))
       (run [Click 0, IntervalFires 1 1500000] initialState)
     = Some [2]
   \<and> map_option (\<lambda>s. isRunning (timeoutFires 2 1500600 (pauseTimer 1500100 s)))
       (run [Click 0, IntervalFires 1 1500000] initialState)
     = Some True
   \<and> map_option (\<lambda>s. (isRunning s, wasRunningBeforeSettings s, liveTimeouts s))
       (run [Click 0, IntervalFires 1 1500000, SettingsClick 1500100] initialState)
     = Some (False, False, [2])
   \<and> map_option (\<lambda>s. (isRunning s, targetTimestamp s))
       (run [Click 0, IntervalFires 1 1500000, SettingsClick 1500100, BackClick 1500200]
          initialState)
     = Some (False, None)
   \<and> map_option (\<lambda>s. (isRunning s, targetTimestamp s))
       (run [Click 0, IntervalFires 1 1500000, SettingsClick 1500100, BackClick 1500200,
             TimeoutFires 2 1500600] initialState)
     = Some (True, Some 1800600)"
  by (simp add: initialState_def initialPhases_def engine_defs command_defs)

end
